theory Spec2Isabelle
  imports Complex_Main
begin

section \<open>Numbers\<close>

text \<open>
  The tensors of \<^verbatim>\<open>phi.math\<close> hold IEEE doubles. The model keeps the three special
  values, which the geometry code produces on purpose (\<^verbatim>\<open>Box[:5]\<close> has the lower corner
  \<^verbatim>\<open>-inf\<close>), and takes a finite double as the real number it stands for: rounding and
  overflow of finite values are left out, and zero carries no sign. Tensors of integers
  are not told apart from tensors of doubles: their values are reals too, so the
  wrap-around of 64-bit integers is left out as well. A statement about the arithmetic
  of finite values is therefore a statement in real arithmetic.
\<close>

datatype fl = NInf | Fin real | PInf | NaN

fun fneg :: "fl \<Rightarrow> fl" where
  "fneg NInf = PInf"
| "fneg (Fin x) = Fin (- x)"
| "fneg PInf = NInf"
| "fneg NaN = NaN"

fun fadd :: "fl \<Rightarrow> fl \<Rightarrow> fl" where
  "fadd NaN b = NaN"
| "fadd a NaN = NaN"
| "fadd (Fin x) (Fin y) = Fin (x + y)"
| "fadd PInf NInf = NaN"
| "fadd NInf PInf = NaN"
| "fadd PInf b = PInf"
| "fadd a PInf = PInf"
| "fadd NInf b = NInf"
| "fadd a NInf = NInf"

definition fsub :: "fl \<Rightarrow> fl \<Rightarrow> fl" where
  "fsub a b = fadd a (fneg b)"

text \<open>The sign of a value that is not NaN: -1, 0 or 1.\<close>

fun fsgn :: "fl \<Rightarrow> real" where
  "fsgn NInf = - 1"
| "fsgn (Fin x) = sgn x"
| "fsgn PInf = 1"
| "fsgn NaN = 0"

fun fmul :: "fl \<Rightarrow> fl \<Rightarrow> fl" where
  "fmul NaN b = NaN"
| "fmul a NaN = NaN"
| "fmul (Fin x) (Fin y) = Fin (x * y)"
| "fmul a b =
     (if fsgn a * fsgn b = 0 then NaN else if 0 < fsgn a * fsgn b then PInf else NInf)"

text \<open>
  Division by zero raises nothing on arrays: a finite nonzero value over zero is an
  infinity, zero over zero is NaN.
\<close>

fun fdiv :: "fl \<Rightarrow> fl \<Rightarrow> fl" where
  "fdiv NaN b = NaN"
| "fdiv a NaN = NaN"
| "fdiv (Fin x) (Fin y) =
     (if y \<noteq> 0 then Fin (x / y)
      else if x = 0 then NaN else if 0 < x then PInf else NInf)"
| "fdiv (Fin x) b = Fin 0"
| "fdiv a (Fin y) = (if y < 0 then fneg a else a)"
| "fdiv a b = NaN"

fun fabs :: "fl \<Rightarrow> fl" where
  "fabs NInf = PInf"
| "fabs (Fin x) = Fin \<bar>x\<bar>"
| "fabs PInf = PInf"
| "fabs NaN = NaN"

text \<open>Every comparison with NaN is false.\<close>

fun fle :: "fl \<Rightarrow> fl \<Rightarrow> bool" where
  "fle NaN b = False"
| "fle a NaN = False"
| "fle NInf b = True"
| "fle a PInf = True"
| "fle (Fin x) (Fin y) = (x \<le> y)"
| "fle a b = False"

definition fge :: "fl \<Rightarrow> fl \<Rightarrow> bool" where
  "fge a b = fle b a"

text \<open>The maximum of a reduction: NaN wins, as in \<^verbatim>\<open>numpy.max\<close>.\<close>

definition fmax :: "fl \<Rightarrow> fl \<Rightarrow> fl" where
  "fmax a b = (if a = NaN \<or> b = NaN then NaN else if fle a b then b else a)"

fun is_Fin :: "fl \<Rightarrow> bool" where
  "is_Fin (Fin x) = True"
| "is_Fin a = False"

fun val :: "fl \<Rightarrow> real" where
  "val (Fin x) = x"
| "val a = 0"

section \<open>Errors\<close>

datatype error =
    NotImplementedError
  | AssertionError
  | ZeroDivisionError
  | IndexError
  | ValueError
  | ShapeError

text \<open>An exception ends the computation; a result goes to the next step.\<close>

fun bindE :: "error + 'a \<Rightarrow> ('a \<Rightarrow> error + 'b) \<Rightarrow> error + 'b" where
  "bindE (Inl e) f = Inl e"
| "bindE (Inr x) f = f x"

section \<open>Tensors\<close>

text \<open>
  Modelled from the spec: the tensor engine \<^verbatim>\<open>phi.math\<close> (elementwise arithmetic and
  comparison with broadcasting, reductions over the \<^verbatim>\<open>vector\<close> dimension). A tensor
  of the geometry code has the channel dimension \<^verbatim>\<open>vector\<close> last and batch and
  spatial dimensions before it. The model has one dimension before \<^verbatim>\<open>vector\<close>, which
  stands for the batch and spatial dimensions: a tensor is the list of its rows, one row
  per batch element, each row the list of the vector components. A tensor has at least
  one row and all rows have one length; a tensor without batch dimension has one row.
  Two dimensions combine when their sizes are equal or one of them is 1, and an operation
  on sizes that do not combine is an error (\<open>ShapeError\<close> in the model).
\<close>

type_synonym 'a tensor = "'a list list"

definition tshape :: "'a tensor \<Rightarrow> (nat \<times> nat) option" where
  "tshape t =
     (if t \<noteq> [] \<and> list_all (\<lambda>r. length r = length (hd t)) t
      then Some (length t, length (hd t)) else None)"

definition bdim :: "nat \<Rightarrow> nat \<Rightarrow> nat option" where
  "bdim m n = (if m = n then Some m else if m = 1 then Some n
               else if n = 1 then Some m else None)"

text \<open>
  The shape two shapes broadcast to, and \<^verbatim>\<open>combined_shape\<close>, the shape two tensors
  broadcast to. \<open>None\<close> stands for no shape: the sizes do not combine.
\<close>

definition bshape :: "(nat \<times> nat) option \<Rightarrow> (nat \<times> nat) option \<Rightarrow> (nat \<times> nat) option" where
  "bshape s1 s2 =
     (case (s1, s2) of
        (Some (m1, n1), Some (m2, n2)) \<Rightarrow>
          (case (bdim m1 m2, bdim n1 n2) of
             (Some m, Some n) \<Rightarrow> Some (m, n)
           | _ \<Rightarrow> None)
      | _ \<Rightarrow> None)"

definition combined_shape :: "'a tensor \<Rightarrow> 'b tensor \<Rightarrow> (nat \<times> nat) option" where
  "combined_shape a b = bshape (tshape a) (tshape b)"

text \<open>Reading a list of size 1 at any index gives its only element.\<close>

definition elt :: "'a list \<Rightarrow> nat \<Rightarrow> 'a" where
  "elt xs i = (if length xs = 1 then xs ! 0 else xs ! i)"

definition elt2 :: "'a tensor \<Rightarrow> nat \<Rightarrow> nat \<Rightarrow> 'a" where
  "elt2 t i j = elt (elt t i) j"

definition expand :: "nat \<times> nat \<Rightarrow> 'a tensor \<Rightarrow> 'a tensor" where
  "expand sh t = map (\<lambda>i. map (\<lambda>j. elt2 t i j) [0..<snd sh]) [0..<fst sh]"

text \<open>A tensor of the shape \<open>s\<close> broadcasts to the shape \<open>sh\<close>.\<close>

fun fits :: "nat \<times> nat \<Rightarrow> (nat \<times> nat) option \<Rightarrow> bool" where
  "fits (m, n) (Some (m1, n1)) = ((m1 = m \<or> m1 = 1) \<and> (n1 = n \<or> n1 = 1))"
| "fits (m, n) None = False"

definition tmap2 :: "('a \<Rightarrow> 'b \<Rightarrow> 'c) \<Rightarrow> 'a tensor \<Rightarrow> 'b tensor \<Rightarrow> error + 'c tensor" where
  "tmap2 f a b =
     (case combined_shape a b of
        None \<Rightarrow> Inl ShapeError
      | Some (m, n) \<Rightarrow>
          Inr (map (\<lambda>i. map (\<lambda>j. f (elt2 a i j) (elt2 b i j)) [0..<n]) [0..<m]))"

definition tadd :: "fl tensor \<Rightarrow> fl tensor \<Rightarrow> error + fl tensor" where
  "tadd = tmap2 fadd"

definition tsub :: "fl tensor \<Rightarrow> fl tensor \<Rightarrow> error + fl tensor" where
  "tsub = tmap2 fsub"

definition tmul :: "fl tensor \<Rightarrow> fl tensor \<Rightarrow> error + fl tensor" where
  "tmul = tmap2 fmul"

definition tdiv :: "fl tensor \<Rightarrow> fl tensor \<Rightarrow> error + fl tensor" where
  "tdiv = tmap2 fdiv"

definition tge :: "fl tensor \<Rightarrow> fl tensor \<Rightarrow> error + bool tensor" where
  "tge = tmap2 fge"

definition tle :: "fl tensor \<Rightarrow> fl tensor \<Rightarrow> error + bool tensor" where
  "tle = tmap2 fle"

definition tand :: "bool tensor \<Rightarrow> bool tensor \<Rightarrow> error + bool tensor" where
  "tand = tmap2 (\<and>)"

text \<open>A tensor and a Python number: \<^verbatim>\<open>c * t\<close>, \<^verbatim>\<open>t * c\<close>, \<^verbatim>\<open>t / c\<close>.\<close>

definition smul_l :: "fl \<Rightarrow> fl tensor \<Rightarrow> fl tensor" where
  "smul_l c t = map (map (fmul c)) t"

definition smul_r :: "fl tensor \<Rightarrow> fl \<Rightarrow> fl tensor" where
  "smul_r t c = map (map (\<lambda>x. fmul x c)) t"

definition sdiv :: "fl tensor \<Rightarrow> fl \<Rightarrow> fl tensor" where
  "sdiv t c = map (map (\<lambda>x. fdiv x c)) t"

definition tabs :: "fl tensor \<Rightarrow> fl tensor" where
  "tabs t = map (map fabs) t"

text \<open>
  Tensors without infinity and NaN, tensors without NaN, and tensors of strictly positive
  values (which may be infinite).
\<close>

definition tfinite :: "fl tensor \<Rightarrow> bool" where
  "tfinite t = list_all (list_all is_Fin) t"

definition tno_nan :: "fl tensor \<Rightarrow> bool" where
  "tno_nan t = list_all (list_all (\<lambda>x. x \<noteq> NaN)) t"

definition flt :: "fl \<Rightarrow> fl \<Rightarrow> bool" where
  "flt a b = (fle a b \<and> \<not> fle b a)"

definition tpositive :: "fl tensor \<Rightarrow> bool" where
  "tpositive t = list_all (list_all (flt (Fin 0))) t"

text \<open>
  Modelled from the spec: the reductions. \<^verbatim>\<open>math.all(t, 'vector')\<close> and
  \<^verbatim>\<open>math.max(t, 'vector')\<close> reduce every row and leave one value per batch element; the
  maximum of no value is an error, and a NaN in a row makes the maximum NaN.
  \<^verbatim>\<open>np.all(t)\<close> reduces the whole tensor to one boolean.
\<close>

definition math_all :: "bool tensor \<Rightarrow> bool list" where
  "math_all t = map (list_all (\<lambda>x. x)) t"

definition math_max :: "fl tensor \<Rightarrow> error + fl list" where
  "math_max t =
     (case tshape t of
        None \<Rightarrow> Inl ShapeError
      | Some (m, n) \<Rightarrow>
          if n = 0 then Inl ValueError
          else Inr (map (\<lambda>r. foldl fmax (hd r) (tl r)) t))"

definition np_all :: "bool tensor \<Rightarrow> bool" where
  "np_all t = list_all (list_all (\<lambda>x. x)) t"

text \<open>
  Modelled from the spec: the equality-within-tolerance check \<^verbatim>\<open>math.close\<close>. Two
  tensors are close when they broadcast and every pair of elements is close: equal, or
  finite with a distance within the tolerance.
\<close>

fun fclose :: "real \<Rightarrow> real \<Rightarrow> fl \<Rightarrow> fl \<Rightarrow> bool" where
  "fclose rtol atol (Fin x) (Fin y) = (\<bar>x - y\<bar> \<le> atol + rtol * \<bar>y\<bar>)"
| "fclose rtol atol NaN b = False"
| "fclose rtol atol a NaN = False"
| "fclose rtol atol a b = (a = b)"

definition close :: "real \<Rightarrow> real \<Rightarrow> fl tensor \<Rightarrow> fl tensor \<Rightarrow> bool" where
  "close rtol atol a b =
     (case tmap2 (fclose rtol atol) a b of Inl e \<Rightarrow> False | Inr c \<Rightarrow> np_all c)"

text \<open>
  \<^verbatim>\<open>numpy.linspace(start, stop, num)\<close>: \<open>num\<close> evenly spaced samples, the first at
  \<open>start\<close> and, when there are more than one, the last at \<open>stop\<close>.
\<close>

definition linspace :: "real \<Rightarrow> real \<Rightarrow> nat \<Rightarrow> real list" where
  "linspace start stop num =
     map (\<lambda>i. (if 1 < num then real i * ((stop - start) / real (num - 1))
                else real i * (stop - start)) + start) [0..<num]"

text \<open>
  Modelled from the spec: \<^verbatim>\<open>math.meshgrid\<close>, the outer product of the per-axis
  coordinates, one row per grid point (the first axis varies slowest), one vector
  component per axis.
\<close>

fun meshgrid :: "'a list list \<Rightarrow> 'a tensor" where
  "meshgrid [] = [[]]"
| "meshgrid (xs # rest) = concat (map (\<lambda>x. map (\<lambda>r. x # r) (meshgrid rest)) xs)"

text \<open>Python indexing of a dimension of size \<open>n\<close>: a negative index counts from the end.\<close>

definition py_index :: "nat \<Rightarrow> int \<Rightarrow> error + nat" where
  "py_index n i =
     (if 0 \<le> i \<and> i < int n then Inr (nat i)
      else if - int n \<le> i \<and> i < 0 then Inr (nat (int n + i))
      else Inl IndexError)"

section \<open>Shapes of named dimensions\<close>

text \<open>
  Modelled from the spec: the shape object \<^verbatim>\<open>math.Shape\<close>, an ordered list of
  dimensions, each with a name, a kind and a size.
\<close>

datatype dimtype = BATCH_DIM | SPATIAL_DIM | CHANNEL_DIM

type_synonym shape = "(string \<times> dimtype \<times> nat) list"

definition rank :: "shape \<Rightarrow> nat" where
  "rank s = length s"

definition spatial_rank :: "shape \<Rightarrow> nat" where
  "spatial_rank s = length (filter (\<lambda>(name, ty, n). ty = SPATIAL_DIM) s)"

definition sizes :: "shape \<Rightarrow> nat list" where
  "sizes s = map (\<lambda>(name, ty, n). n) s"

section \<open>The boxes\<close>

text \<open>
  The three concrete classes below \<^verbatim>\<open>AbstractBox\<close>. A \<^verbatim>\<open>Box\<close> stores its corners and
  its shape, a \<^verbatim>\<open>Cuboid\<close> its center, half size and shape, and a \<^verbatim>\<open>GridCell\<close> is a
  \<^verbatim>\<open>Cuboid\<close> that also stores its resolution and bounds. The stored shape is the
  combined shape of the two tensors; \<^verbatim>\<open>Cuboid\<close> drops the vector dimension from it.
\<close>

datatype abox =
    Box "fl tensor" "fl tensor" "nat list"
  | Cuboid "fl tensor" "fl tensor" "nat list"
  | GridCell "fl tensor" "fl tensor" "nat list" shape abox

definition Box_init :: "fl tensor \<Rightarrow> fl tensor \<Rightarrow> error + abox" where
  "Box_init lo up =
     (case combined_shape lo up of
        None \<Rightarrow> Inl ShapeError
      | Some (m, n) \<Rightarrow> Inr (Box lo up [m, n]))"

definition Cuboid_init :: "fl tensor \<Rightarrow> fl tensor \<Rightarrow> error + abox" where
  "Cuboid_init c h =
     (case combined_shape c h of
        None \<Rightarrow> Inl ShapeError
      | Some (m, n) \<Rightarrow> Inr (Cuboid c h [m]))"

fun lower :: "abox \<Rightarrow> error + fl tensor" where
  "lower (Box lo up s) = Inr lo"
| "lower (Cuboid c h s) = tsub c h"
| "lower (GridCell c h s r b) = tsub c h"

fun upper :: "abox \<Rightarrow> error + fl tensor" where
  "upper (Box lo up s) = Inr up"
| "upper (Cuboid c h s) = tadd c h"
| "upper (GridCell c h s r b) = tadd c h"

fun size_b :: "abox \<Rightarrow> error + fl tensor" where
  "size_b (Box lo up s) = tsub up lo"
| "size_b (Cuboid c h s) = Inr (smul_l (Fin 2) h)"
| "size_b (GridCell c h s r b) = Inr (smul_l (Fin 2) h)"

fun center :: "abox \<Rightarrow> error + fl tensor" where
  "center (Box lo up s) = bindE (tadd lo up) (\<lambda>t. Inr (smul_l (Fin (1/2)) t))"
| "center (Cuboid c h s) = Inr c"
| "center (GridCell c h s r b) = Inr c"

fun half_size :: "abox \<Rightarrow> error + fl tensor" where
  "half_size (Box lo up s) = bindE (tsub up lo) (\<lambda>t. Inr (smul_r t (Fin (1/2))))"
| "half_size (Cuboid c h s) = Inr h"
| "half_size (GridCell c h s r b) = Inr h"

subsection \<open>The methods of AbstractBox\<close>

definition global_to_local :: "abox \<Rightarrow> fl tensor \<Rightarrow> error + fl tensor" where
  "global_to_local b global_position =
     bindE (lower b) (\<lambda>lo.
     bindE (tsub global_position lo) (\<lambda>d.
     bindE (size_b b) (\<lambda>sz. tdiv d sz)))"

definition local_to_global :: "abox \<Rightarrow> fl tensor \<Rightarrow> error + fl tensor" where
  "local_to_global b local_position =
     bindE (size_b b) (\<lambda>sz.
     bindE (tmul local_position sz) (\<lambda>p.
     bindE (lower b) (\<lambda>lo. tadd p lo)))"

definition lies_inside :: "abox \<Rightarrow> fl tensor \<Rightarrow> error + bool list" where
  "lies_inside b location =
     bindE (lower b) (\<lambda>lo.
     bindE (tge location lo) (\<lambda>ge.
     bindE (upper b) (\<lambda>up.
     bindE (tle location up) (\<lambda>le.
     bindE (tand ge le) (\<lambda>bool_inside. Inr (math_all bool_inside))))))"

definition approximate_signed_distance :: "abox \<Rightarrow> fl tensor \<Rightarrow> error + fl list" where
  "approximate_signed_distance b location =
     bindE (lower b) (\<lambda>lo.
     bindE (upper b) (\<lambda>up.
     bindE (tadd lo up) (\<lambda>s.
     bindE (tsub up lo) (\<lambda>extent.
     bindE (tsub location (smul_l (Fin (1/2)) s)) (\<lambda>d.
     bindE (tsub (tabs d) (smul_r extent (Fin (1/2)))) (\<lambda>distance.
       math_max distance))))))"

definition get :: "fl tensor \<Rightarrow> int \<Rightarrow> error + fl list" where
  "get vector axis =
     (case tshape vector of
        None \<Rightarrow> Inl ShapeError
      | Some (m, n) \<Rightarrow>
          if n = 1 then Inr (map (\<lambda>r. r ! 0) vector)
          else bindE (py_index n axis) (\<lambda>k. Inr (map (\<lambda>r. r ! k) vector)))"

definition get_lower :: "abox \<Rightarrow> int \<Rightarrow> error + fl list" where
  "get_lower b axis = bindE (lower b) (\<lambda>lo. get lo axis)"

definition get_upper :: "abox \<Rightarrow> int \<Rightarrow> error + fl list" where
  "get_upper b axis = bindE (upper b) (\<lambda>up. get up axis)"

definition corner_representation :: "abox \<Rightarrow> error + abox" where
  "corner_representation b =
     bindE (lower b) (\<lambda>lo.
     bindE (upper b) (\<lambda>up. Box_init lo up))"

definition center_representation :: "abox \<Rightarrow> error + abox" where
  "center_representation b =
     bindE (center b) (\<lambda>c.
     bindE (half_size b) (\<lambda>h. Cuboid_init c h))"

text \<open>The argument of \<^verbatim>\<open>contains\<close> and \<^verbatim>\<open>__eq__\<close> is any Python object.\<close>

datatype pyobj = ABox abox | NoBox

definition contains :: "abox \<Rightarrow> pyobj \<Rightarrow> error + bool" where
  "contains b other =
     (case other of
        NoBox \<Rightarrow> Inl NotImplementedError
      | ABox ob \<Rightarrow>
          bindE (lower ob) (\<lambda>olo.
          bindE (lower b) (\<lambda>lo.
          bindE (tge olo lo) (\<lambda>ge.
            if \<not> np_all ge then Inr False
            else
              bindE (upper ob) (\<lambda>oup.
              bindE (upper b) (\<lambda>up.
              bindE (tle oup up) (\<lambda>le. Inr (np_all le))))))))"

subsection \<open>Box\<close>

text \<open>
  \<^verbatim>\<open>__eq__\<close>, with the tolerances of \<^verbatim>\<open>math.close\<close> as parameters. \<^verbatim>\<open>Box\<close> and
  \<^verbatim>\<open>GridCell\<close> define the method, \<^verbatim>\<open>Cuboid\<close> inherits the abstract one, which raises.
  A \<^verbatim>\<open>GridCell\<close> compares its bounds, with the \<^verbatim>\<open>__eq__\<close> of the bounds, and then its
  resolution.
\<close>

fun box_eq :: "real \<Rightarrow> real \<Rightarrow> abox \<Rightarrow> pyobj \<Rightarrow> error + bool" where
  "box_eq rtol atol (Box lo up s) NoBox = Inr False"
| "box_eq rtol atol (Box lo up s) (ABox ob) =
     bindE (lower ob) (\<lambda>olo.
       if tshape lo \<noteq> tshape olo then Inr False
       else Inr (close rtol atol lo olo))"
| "box_eq rtol atol (Cuboid c h s) other = Inl NotImplementedError"
| "box_eq rtol atol (GridCell c h s r b) (ABox (GridCell c' h' s' r' b')) =
     bindE (box_eq rtol atol b (ABox b')) (\<lambda>e.
       if \<not> e then Inr False else Inr (r = r'))"
| "box_eq rtol atol (GridCell c h s r b) other = Inr False"

fun shifted :: "abox \<Rightarrow> fl tensor \<Rightarrow> error + abox" where
  "shifted (Box lo up s) delta =
     bindE (tadd lo delta) (\<lambda>lo'.
     bindE (tadd up delta) (\<lambda>up'. Box_init lo' up'))"
| "shifted (Cuboid c h s) delta = bindE (tadd c delta) (\<lambda>c'. Cuboid_init c' h)"
| "shifted (GridCell c h s r b) delta = bindE (tadd c delta) (\<lambda>c'. Cuboid_init c' h)"

subsection \<open>Construction from slices\<close>

text \<open>
  \<^verbatim>\<open>Box[a:b, c:d]\<close>. An item of the index is a slice, whose start, stop and step may be
  absent, or something else.
\<close>

datatype pyitem = Slice "fl option" "fl option" "fl option" | NoSlice

datatype pyindex = One pyitem | Many "pyitem list"

fun getitem_loop :: "pyitem list \<Rightarrow> fl list \<Rightarrow> fl list \<Rightarrow> error + (fl list \<times> fl list)" where
  "getitem_loop [] lo up = Inr (lo, up)"
| "getitem_loop (NoSlice # rest) lo up = Inl AssertionError"
| "getitem_loop (Slice start stop step # rest) lo up =
     (if \<not> (step = None \<or> step = Some (Fin 1)) then Inl AssertionError
      else getitem_loop rest
             (lo @ [case start of Some v \<Rightarrow> v | None \<Rightarrow> NInf])
             (up @ [case stop of Some v \<Rightarrow> v | None \<Rightarrow> PInf]))"

definition getitem :: "pyindex \<Rightarrow> error + abox" where
  "getitem item =
     (let items = (case item of One i \<Rightarrow> [i] | Many is \<Rightarrow> is)
      in bindE (getitem_loop items [] []) (\<lambda>(lo, up). Box_init [lo] [up]))"

subsection \<open>GridCell\<close>

definition GridCell_init :: "shape \<Rightarrow> abox \<Rightarrow> error + abox" where
  "GridCell_init resolution bounds =
     (if spatial_rank resolution \<noteq> rank resolution then Inl AssertionError
      else if 0 \<in> set (sizes resolution) then Inl ZeroDivisionError
      else
        let local_coords =
              meshgrid (map (\<lambda>n. map Fin (linspace (0.5 / real n) (1 - 0.5 / real n) n))
                            (sizes resolution))
        in bindE (local_to_global bounds local_coords) (\<lambda>points.
           bindE (size_b bounds) (\<lambda>sz.
           bindE (tdiv sz [map (\<lambda>n. Fin (real n)) (sizes resolution)]) (\<lambda>q.
             let hs = sdiv q (Fin 2)
             in case combined_shape points hs of
                  None \<Rightarrow> Inl ShapeError
                | Some (m, n) \<Rightarrow> Inr (GridCell points hs [m] resolution bounds)))))"

text \<open>
  \<^verbatim>\<open>unstack\<close> returns a Python value: \<^verbatim>\<open>None\<close>, or the unstacked geometries.
\<close>

datatype pyval = PyNone | Geometries "abox list"

fun unstack :: "abox \<Rightarrow> string \<Rightarrow> error + pyval" where
  "unstack (Box lo up s) dimension = Inl NotImplementedError"
| "unstack (Cuboid c h s) dimension = Inl NotImplementedError"
| "unstack (GridCell c h s r b) dimension = Inr PyNone"

section \<open>Shapes and broadcasting\<close>

lemma tshape_SomeD:
  assumes "tshape t = Some (m, n)"
  shows "length t = m" and "0 < m" and "\<And>i. i < m \<Longrightarrow> length (t ! i) = n"
proof -
  from assms have ne: "t \<noteq> []" and all: "list_all (\<lambda>r. length r = length (hd t)) t"
    and m: "m = length t" and n: "n = length (hd t)"
    by (simp_all add: tshape_def split: if_splits)
  show "length t = m" by (simp add: m)
  show "0 < m" using ne by (simp add: m)
  fix i assume "i < m"
  then have "t ! i \<in> set t" by (simp add: m)
  with all show "length (t ! i) = n" unfolding n list_all_iff by blast
qed

lemma tshape_map_upt:
  assumes "0 < m"
  shows "tshape (map (\<lambda>i. map (g i) [0..<n]) [0..<m]) = Some (m, n)"
  using assms by (auto simp: tshape_def list_all_iff hd_map upt_conv_Cons)

lemma bdim_SomeD:
  assumes "bdim m1 m2 = Some m"
  shows "(m1 = m \<or> m1 = 1) \<and> (m2 = m \<or> m2 = 1) \<and> (m = 1 \<longrightarrow> m1 = 1 \<and> m2 = 1)"
  using assms by (auto simp: bdim_def split: if_splits)

lemma bdim_pos: "bdim m1 m2 = Some m \<Longrightarrow> 0 < m1 \<Longrightarrow> 0 < m2 \<Longrightarrow> 0 < m"
  by (auto simp: bdim_def split: if_splits)

lemma bshape_SomeD:
  assumes "bshape s1 s2 = Some (m, n)"
  obtains m1 n1 m2 n2 where "s1 = Some (m1, n1)" "s2 = Some (m2, n2)"
    "bdim m1 m2 = Some m" "bdim n1 n2 = Some n"
  using assms
  by (auto simp: bshape_def split: option.splits prod.splits)

lemma combined_shape_SomeD:
  assumes "combined_shape a b = Some (m, n)"
  obtains m1 n1 m2 n2 where "tshape a = Some (m1, n1)" "tshape b = Some (m2, n2)"
    "bdim m1 m2 = Some m" "bdim n1 n2 = Some n"
  using assms unfolding combined_shape_def by (rule bshape_SomeD)

lemma combined_shape_pos:
  assumes "combined_shape a b = Some (m, n)"
  shows "0 < m"
proof -
  from assms obtain m1 n1 m2 n2 where s: "tshape a = Some (m1, n1)" "tshape b = Some (m2, n2)"
    "bdim m1 m2 = Some m" by (rule combined_shape_SomeD)
  from tshape_SomeD(2)[OF s(1)] tshape_SomeD(2)[OF s(2)] bdim_pos[OF s(3)] show ?thesis by simp
qed

text \<open>Reading a tensor of shape \<open>(m1, n1)\<close> at an index of a shape it broadcasts to.\<close>

lemma elt2_tshape:
  assumes "tshape t = Some (m1, n1)" and "m1 = 1 \<or> i < m1"
  shows "elt2 t i j = t ! (if m1 = 1 then 0 else i) ! (if n1 = 1 then 0 else j)"
proof -
  have len: "length t = m1" using tshape_SomeD[OF assms(1)] by auto
  have "length (t ! (if m1 = 1 then 0 else i)) = n1"
    using tshape_SomeD(3)[OF assms(1), of "if m1 = 1 then 0 else i"] assms(2) by auto
  with len show ?thesis by (auto simp: elt2_def elt_def)
qed

lemma tmap2_InrD:
  assumes "tmap2 f a b = Inr r"
  obtains m n where "combined_shape a b = Some (m, n)"
    "r = map (\<lambda>i. map (\<lambda>j. f (elt2 a i j) (elt2 b i j)) [0..<n]) [0..<m]"
  using assms by (auto simp: tmap2_def split: option.splits)

lemma tmap2_shape:
  assumes "tmap2 f a b = Inr r"
  shows "tshape r = combined_shape a b"
proof -
  from assms obtain m n where c: "combined_shape a b = Some (m, n)"
    and r: "r = map (\<lambda>i. map (\<lambda>j. f (elt2 a i j) (elt2 b i j)) [0..<n]) [0..<m]"
    by (rule tmap2_InrD)
  from combined_shape_pos[OF c] have "tshape r = Some (m, n)" unfolding r by (rule tshape_map_upt)
  with c show ?thesis by simp
qed

lemma tmap2_Inl:
  assumes "combined_shape a b = None"
  shows "tmap2 f a b = Inl ShapeError"
  using assms by (simp add: tmap2_def)

lemma tmap2_Inr:
  assumes "combined_shape a b = Some (m, n)"
  shows "tmap2 f a b = Inr (map (\<lambda>i. map (\<lambda>j. f (elt2 a i j) (elt2 b i j)) [0..<n]) [0..<m])"
  using assms by (simp add: tmap2_def)

text \<open>
  The element of a result at an index \<open>(i, j)\<close> of its own shape, or of a shape it
  broadcasts to: the operation on the elements of the operands at the same index.
\<close>

lemma elt2_tmap2:
  assumes "tmap2 f a b = Inr r" "tshape r = Some (m, n)"
    and "m = 1 \<or> i < m" "n = 1 \<or> j < n"
  shows "elt2 r i j = f (elt2 a i j) (elt2 b i j)"
proof -
  from assms(1) obtain m' n' where c: "combined_shape a b = Some (m', n')"
    and r: "r = map (\<lambda>i. map (\<lambda>j. f (elt2 a i j) (elt2 b i j)) [0..<n']) [0..<m']"
    by (rule tmap2_InrD)
  from tmap2_shape[OF assms(1)] c assms(2) have [simp]: "m' = m" "n' = n" by auto
  from c obtain m1 n1 m2 n2 where s: "tshape a = Some (m1, n1)" "tshape b = Some (m2, n2)"
    "bdim m1 m2 = Some m" "bdim n1 n2 = Some n" by (rule combined_shape_SomeD) auto
  have pos: "0 < m" using combined_shape_pos c by fastforce
  define i' where "i' = (if m = 1 then 0 else i)"
  have i': "i' < m" using assms(3) pos by (auto simp: i'_def)
  have e: "elt2 r i j = r ! i' ! (if n = 1 then 0 else j)"
    using elt2_tshape[OF assms(2) assms(3)] by (simp add: i'_def)
  have a: "elt2 a i j = elt2 a i' j" "elt2 b i j = elt2 b i' j"
    using bdim_SomeD[OF s(3)] s(1,2) tshape_SomeD(1)[OF s(1)] tshape_SomeD(1)[OF s(2)]
    by (auto simp: i'_def elt2_def elt_def)
  show ?thesis
  proof (cases "n = 1")
    case True
    then have n1: "n1 = 1" "n2 = 1" using bdim_SomeD[OF s(4)] by auto
    have la: "length (elt a i') = 1" "length (elt b i') = 1"
      using tshape_SomeD[OF s(1)] tshape_SomeD[OF s(2)] n1 bdim_SomeD[OF s(3)] i'
      by (auto simp: elt_def)
    have "elt2 a i' j = elt2 a i' 0" "elt2 b i' j = elt2 b i' 0"
      using la by (auto simp: elt2_def elt_def)
    with e a True i' show ?thesis by (simp add: r)
  next
    case False
    with assms(4) have "j < n" by simp
    with e a False i' show ?thesis by (simp add: r)
  qed
qed

lemma math_all_map:
  "math_all (map (\<lambda>i. map (g i) [0..<n]) [0..<m]) = map (\<lambda>i. list_all (g i) [0..<n]) [0..<m]"
  by (simp add: math_all_def list.pred_map comp_def)

lemma bshape_None_left: "bshape None s = None"
  by (simp add: bshape_def)

lemma bshape_None_right: "bshape s None = None"
  by (simp add: bshape_def split: option.splits prod.splits)

lemma fits_refl: "fits sh (Some sh)"
  by (cases sh) simp

lemma fits_bshape:
  assumes "bshape s1 s2 = Some s" "fits sh (Some s)"
  shows "fits sh s1" "fits sh s2"
proof -
  obtain m n where s: "s = (m, n)" by (cases s)
  obtain M N where sh: "sh = (M, N)" by (cases sh)
  from assms(1) s obtain m1 n1 m2 n2 where d: "s1 = Some (m1, n1)" "s2 = Some (m2, n2)"
    "bdim m1 m2 = Some m" "bdim n1 n2 = Some n" by (auto elim: bshape_SomeD)
  from assms(2) bdim_SomeD[OF d(3)] bdim_SomeD[OF d(4)]
  show "fits sh s1" "fits sh s2" by (auto simp: s sh d)
qed

lemma bshape_absorb:
  assumes "fits sh s"
  shows "bshape (Some sh) s = Some sh"
  using assms by (cases sh; cases s) (auto simp: bshape_def bdim_def)

lemma elt2_tmap2_fits:
  assumes "tmap2 f a b = Inr r" "fits (m, n) (tshape r)" "i < m" "j < n"
  shows "elt2 r i j = f (elt2 a i j) (elt2 b i j)"
proof -
  from assms(2) obtain m1 n1 where s: "tshape r = Some (m1, n1)"
    by (cases "tshape r") auto
  show ?thesis using assms(1) s
  proof (rule elt2_tmap2)
    show "m1 = 1 \<or> i < m1" using assms(2,3) by (auto simp: s)
    show "n1 = 1 \<or> j < n1" using assms(2,4) by (auto simp: s)
  qed
qed

lemma tmap2_fits:
  assumes "tmap2 f a b = Inr r" "fits sh (tshape r)"
  shows "fits sh (tshape a)" "fits sh (tshape b)"
proof -
  from assms(2) obtain s where s: "tshape r = Some s" by (cases "tshape r"; cases sh) auto
  then have "bshape (tshape a) (tshape b) = Some s"
    using tmap2_shape[OF assms(1)] by (simp add: combined_shape_def)
  from fits_bshape[OF this] assms(2) s show "fits sh (tshape a)" "fits sh (tshape b)" by auto
qed

lemma elt2_finite:
  assumes "tfinite t" "fits (m, n) (tshape t)" "i < m" "j < n"
  shows "is_Fin (elt2 t i j)"
proof -
  from assms(2) obtain m1 n1 where s: "tshape t = Some (m1, n1)"
    by (cases "tshape t") auto
  define i' where "i' = (if m1 = 1 then 0 else i)"
  define j' where "j' = (if n1 = 1 then 0 else j)"
  have i': "i' < m1" and j': "j' < n1" using assms(2,3,4) by (auto simp: s i'_def j'_def)
  have e: "elt2 t i j = t ! i' ! j'" unfolding i'_def j'_def
    using s by (rule elt2_tshape) (use assms(2,3) in \<open>auto simp: s\<close>)
  from tshape_SomeD[OF s] i' have "t ! i' \<in> set t" "length (t ! i') = n1" by auto
  with j' have "t ! i' ! j' \<in> set (t ! i')" by simp
  with \<open>t ! i' \<in> set t\<close> assms(1) show ?thesis
    unfolding e tfinite_def list_all_iff by blast
qed

lemma elt2_positive:
  assumes "tpositive t" "fits (m, n) (tshape t)" "i < m" "j < n"
  shows "flt (Fin 0) (elt2 t i j)"
proof -
  from assms(2) obtain m1 n1 where s: "tshape t = Some (m1, n1)"
    by (cases "tshape t") auto
  define i' where "i' = (if m1 = 1 then 0 else i)"
  define j' where "j' = (if n1 = 1 then 0 else j)"
  have i': "i' < m1" and j': "j' < n1" using assms(2,3,4) by (auto simp: s i'_def j'_def)
  have e: "elt2 t i j = t ! i' ! j'" unfolding i'_def j'_def
    using s by (rule elt2_tshape) (use assms(2,3) in \<open>auto simp: s\<close>)
  from tshape_SomeD[OF s] i' have "t ! i' \<in> set t" "length (t ! i') = n1" by auto
  with j' have "t ! i' ! j' \<in> set (t ! i')" by simp
  with \<open>t ! i' \<in> set t\<close> assms(1) show ?thesis
    unfolding e tpositive_def list_all_iff by blast
qed

lemma expand_id:
  assumes "tshape t = Some sh"
  shows "expand sh t = t"
proof -
  obtain m n where sh: "sh = (m, n)" by (cases sh)
  note s = assms[unfolded sh]
  have len: "length t = m" using tshape_SomeD[OF s] by simp
  show ?thesis unfolding sh expand_def
  proof (rule nth_equalityI)
    show "length (map (\<lambda>i. map (elt2 t i) [0..<snd (m, n)]) [0..<fst (m, n)]) = length t"
      by (simp add: len)
  next
    fix i assume "i < length (map (\<lambda>i. map (elt2 t i) [0..<snd (m, n)]) [0..<fst (m, n)])"
    then have i: "i < m" by simp
    have li: "length (t ! i) = n" using tshape_SomeD(3)[OF s i] .
    have "map (elt2 t i) [0..<n] = t ! i"
    proof (rule nth_equalityI)
      show "length (map (elt2 t i) [0..<n]) = length (t ! i)" by (simp add: li)
    next
      fix j assume "j < length (map (elt2 t i) [0..<n])"
      then have j: "j < n" by simp
      have "elt2 t i j = t ! (if m = 1 then 0 else i) ! (if n = 1 then 0 else j)"
        using s by (rule elt2_tshape) (use i in simp)
      with i j show "map (elt2 t i) [0..<n] ! j = t ! i ! j" by auto
    qed
    with i show "map (\<lambda>i. map (elt2 t i) [0..<snd (m, n)]) [0..<fst (m, n)] ! i = t ! i"
      by simp
  qed
qed

lemma tshape_map_map: "tshape (map (map g) t) = tshape t"
  by (cases t) (auto simp: tshape_def list_all_iff)

lemma elt2_map_map:
  assumes "fits (m, n) (tshape t)" "i < m" "j < n"
  shows "elt2 (map (map g) t) i j = g (elt2 t i j)"
proof -
  from assms(1) obtain m1 n1 where s: "tshape t = Some (m1, n1)"
    by (cases "tshape t") auto
  define i' where "i' = (if m1 = 1 then 0 else i)"
  define j' where "j' = (if n1 = 1 then 0 else j)"
  have i': "i' < m1" and j': "j' < n1" using assms by (auto simp: s i'_def j'_def)
  have c: "m1 = 1 \<or> i < m1" using assms by (auto simp: s)
  have e: "elt2 t i j = t ! i' ! j'" unfolding i'_def j'_def using s c by (rule elt2_tshape)
  have s': "tshape (map (map g) t) = Some (m1, n1)" by (simp add: tshape_map_map s)
  have e': "elt2 (map (map g) t) i j = map (map g) t ! i' ! j'"
    unfolding i'_def j'_def using s' c by (rule elt2_tshape)
  from tshape_SomeD[OF s] i' have "i' < length t" "length (t ! i') = n1" by auto
  with j' show ?thesis by (simp add: e e')
qed

lemma bshape_commute: "bshape s1 s2 = bshape s2 s1"
  by (auto simp: bshape_def bdim_def split: option.splits prod.splits)

lemma combined_shape_commute: "combined_shape a b = combined_shape b a"
  unfolding combined_shape_def by (rule bshape_commute)

lemma np_all_map:
  "np_all (map (\<lambda>i. map (g i) [0..<n]) [0..<m]) = (\<forall>i<m. \<forall>j<n. g i j)"
  by (auto simp: np_all_def list_all_iff)

lemma bdim_same: "bdim m m = Some m"
  by (simp add: bdim_def)

lemma combined_shape_same:
  assumes "tshape t = Some (m, n)"
  shows "combined_shape t t = Some (m, n)"
  by (simp add: combined_shape_def assms bshape_def bdim_same)

lemma elt2_no_nan:
  assumes "tno_nan t" "fits (m, n) (tshape t)" "i < m" "j < n"
  shows "elt2 t i j \<noteq> NaN"
proof -
  from assms(2) obtain m1 n1 where s: "tshape t = Some (m1, n1)"
    by (cases "tshape t") auto
  define i' where "i' = (if m1 = 1 then 0 else i)"
  define j' where "j' = (if n1 = 1 then 0 else j)"
  have i': "i' < m1" and j': "j' < n1" using assms(2,3,4) by (auto simp: s i'_def j'_def)
  have e: "elt2 t i j = t ! i' ! j'" unfolding i'_def j'_def
    using s by (rule elt2_tshape) (use assms(2,3) in \<open>auto simp: s\<close>)
  from tshape_SomeD[OF s] i' have "t ! i' \<in> set t" "length (t ! i') = n1" by auto
  with j' have "t ! i' ! j' \<in> set (t ! i')" by simp
  with \<open>t ! i' \<in> set t\<close> assms(1) show ?thesis
    unfolding e tno_nan_def list_all_iff by blast
qed

lemma all_less_two: "(\<forall>i<(2::nat). P i) = (P 0 \<and> P 1)"
  by (auto simp: less_Suc_eq numeral_2_eq_2)

lemma fits_bshapeI:
  assumes "fits sh s1" "fits sh s2" "bshape s1 s2 = Some s"
  shows "fits sh (Some s)"
proof -
  obtain m n where s: "s = (m, n)" by (cases s)
  obtain M N where sh: "sh = (M, N)" by (cases sh)
  from assms(3) s obtain m1 n1 m2 n2 where d: "s1 = Some (m1, n1)" "s2 = Some (m2, n2)"
    "bdim m1 m2 = Some m" "bdim n1 n2 = Some n" by (auto elim: bshape_SomeD)
  from d(3) have "m = m1 \<or> m = m2" by (auto simp: bdim_def split: if_splits)
  moreover from d(4) have "n = n1 \<or> n = n2" by (auto simp: bdim_def split: if_splits)
  ultimately show ?thesis using assms(1,2) unfolding s sh d by auto
qed

text \<open>The order of the values.\<close>

lemma fle_refl: "x \<noteq> NaN \<Longrightarrow> fle x x"
  by (cases x) auto

lemma fle_not_NaN: "fle a b \<Longrightarrow> a \<noteq> NaN \<and> b \<noteq> NaN"
  by (cases a; cases b) auto

lemma fle_total: "a \<noteq> NaN \<Longrightarrow> b \<noteq> NaN \<Longrightarrow> fle a b \<or> fle b a"
  by (cases a; cases b) auto

lemma fle_trans: "fle a b \<Longrightarrow> fle b c \<Longrightarrow> fle a c"
  by (cases a; cases b; cases c) auto

lemma fle_antisym: "fle a b \<Longrightarrow> fle b a \<Longrightarrow> a = b"
  by (cases a; cases b) auto

lemma flt_fle_trans: "flt a b \<Longrightarrow> fle b c \<Longrightarrow> flt a c"
  by (cases a; cases b; cases c) (auto simp: flt_def)

text \<open>A tensor whose elements, read at every index of a shape it broadcasts to, are no NaN.\<close>

lemma tno_nan_elt2I:
  assumes s: "tshape t = Some (m1, n1)" and f: "fits (m, n) (tshape t)"
    and m: "0 < m" and n: "0 < n"
    and e: "\<And>i j. i < m \<Longrightarrow> j < n \<Longrightarrow> elt2 t i j \<noteq> NaN"
  shows "tno_nan t"
  unfolding tno_nan_def list_all_iff
proof (intro ballI)
  fix r x assume r: "r \<in> set t" and x: "x \<in> set r"
  from r obtain i' where i': "i' < length t" "r = t ! i'" by (auto simp: in_set_conv_nth)
  from x obtain j' where j': "j' < length r" "x = r ! j'" by (auto simp: in_set_conv_nth)
  have len: "length t = m1" using tshape_SomeD(1)[OF s] .
  have lr: "length r = n1" using tshape_SomeD(3)[OF s, of i'] i' len by simp
  define i where "i = (if m1 = 1 then 0 else i')"
  define j where "j = (if n1 = 1 then 0 else j')"
  have im: "i < m" using f i' len m by (auto simp: s i_def)
  have jn: "j < n" using f j' lr n by (auto simp: s j_def)
  have ii: "(if m1 = 1 then 0 else i) = i'" using i' len by (auto simp: i_def)
  have jj: "(if n1 = 1 then 0 else j) = j'" using j' lr by (auto simp: j_def)
  have "elt2 t i j = t ! (if m1 = 1 then 0 else i) ! (if n1 = 1 then 0 else j)"
    using s by (rule elt2_tshape) (use f im in \<open>auto simp: s\<close>)
  then have "elt2 t i j = x" by (simp only: ii jj i'(2)[symmetric] j'(2)[symmetric])
  with e[OF im jn] show "x \<noteq> NaN" by simp
qed

section \<open>The round trip of global_to_local and local_to_global\<close>

lemma roundtrip_value:
  assumes "is_Fin p" "is_Fin l" "is_Fin s" "flt (Fin 0) s"
  shows "fadd (fmul (fdiv (fsub p l) s) s) l = p"
  using assms by (cases p; cases l; cases s) (auto simp: fsub_def flt_def)

text \<open>
  Claim C1, as the code has it. \<^verbatim>\<open>global_to_local\<close> computes \<open>(p - lower) / size\<close> and
  \<^verbatim>\<open>local_to_global\<close> computes \<open>p * size + lower\<close>. For every box whose lower corner and
  size are finite, with a strictly positive size on every axis, and every finite point
  tensor \<open>p\<close> that broadcasts with them, \<^verbatim>\<open>b.local_to_global(b.global_to_local(p))\<close>
  is \<open>p\<close>, broadcast to the combined shape (and \<open>p\<close> itself when \<open>p\<close> has that shape).
\<close>

theorem round_trip:
  assumes lo: "lower b = Inr lo" and sz: "size_b b = Inr sz"
    and fin: "tfinite lo" "tfinite sz" "tfinite p" and pos: "tpositive sz"
    and sh: "bshape (combined_shape p lo) (tshape sz) = Some sh"
  shows "\<exists>q. global_to_local b p = Inr q \<and> local_to_global b q = Inr (expand sh p)
             \<and> (tshape p = Some sh \<longrightarrow> local_to_global b q = Inr p)"
proof -
  obtain m n where shmn: "sh = (m, n)" by (cases sh)
  from sh obtain s1 where c1: "combined_shape p lo = Some s1"
    by (cases "combined_shape p lo") (auto simp: bshape_None_left)
  obtain a1 b1 where s1: "s1 = (a1, b1)" by (cases s1)
  have d: "tsub p lo = Inr (map (\<lambda>i. map (\<lambda>j. fsub (elt2 p i j) (elt2 lo i j)) [0..<b1]) [0..<a1])"
    (is "_ = Inr ?d") unfolding tsub_def using c1[unfolded s1] by (rule tmap2_Inr)
  have sd: "tshape ?d = Some s1" using tmap2_shape[OF d[unfolded tsub_def]] c1 by simp
  have c2: "combined_shape ?d sz = Some (m, n)"
    using sh by (simp add: combined_shape_def[of ?d sz] sd c1 shmn)
  have q: "tdiv ?d sz = Inr (map (\<lambda>i. map (\<lambda>j. fdiv (elt2 ?d i j) (elt2 sz i j)) [0..<n]) [0..<m])"
    (is "_ = Inr ?q") unfolding tdiv_def using c2 by (rule tmap2_Inr)
  have sq: "tshape ?q = Some (m, n)" using tmap2_shape[OF q[unfolded tdiv_def]] c2 by simp
  have g: "global_to_local b p = Inr ?q"
    by (simp add: global_to_local_def lo sz d q)
  have fq: "fits (m, n) (tshape ?q)" by (simp only: sq fits_refl)
  have fd: "fits (m, n) (tshape ?d)" and fsz: "fits (m, n) (tshape sz)"
    using tmap2_fits[OF q[unfolded tdiv_def] fq] by auto
  have fp: "fits (m, n) (tshape p)" and flo: "fits (m, n) (tshape lo)"
    using tmap2_fits[OF d[unfolded tsub_def] fd] by auto
  have c3: "combined_shape ?q sz = Some (m, n)"
    unfolding combined_shape_def sq using fsz by (rule bshape_absorb)
  have pr: "tmul ?q sz = Inr (map (\<lambda>i. map (\<lambda>j. fmul (elt2 ?q i j) (elt2 sz i j)) [0..<n]) [0..<m])"
    (is "_ = Inr ?pr") unfolding tmul_def using c3 by (rule tmap2_Inr)
  have spr: "tshape ?pr = Some (m, n)" using tmap2_shape[OF pr[unfolded tmul_def]] c3 by simp
  have fpr: "fits (m, n) (tshape ?pr)" by (simp only: spr fits_refl)
  have c4: "combined_shape ?pr lo = Some (m, n)"
    unfolding combined_shape_def spr using flo by (rule bshape_absorb)
  have r: "tadd ?pr lo = Inr (map (\<lambda>i. map (\<lambda>j. fadd (elt2 ?pr i j) (elt2 lo i j)) [0..<n]) [0..<m])"
    unfolding tadd_def using c4 by (rule tmap2_Inr)
  have el: "fadd (elt2 ?pr i j) (elt2 lo i j) = elt2 p i j" if ij: "i < m" "j < n" for i j
  proof -
    have 1: "elt2 ?pr i j = fmul (elt2 ?q i j) (elt2 sz i j)"
      using pr[unfolded tmul_def] fpr ij by (rule elt2_tmap2_fits)
    have 2: "elt2 ?q i j = fdiv (elt2 ?d i j) (elt2 sz i j)"
      using q[unfolded tdiv_def] fq ij by (rule elt2_tmap2_fits)
    have 3: "elt2 ?d i j = fsub (elt2 p i j) (elt2 lo i j)"
      using d[unfolded tsub_def] fd ij by (rule elt2_tmap2_fits)
    show ?thesis unfolding 1 2 3
      by (rule roundtrip_value)
         (rule elt2_finite[OF fin(3) fp ij] elt2_finite[OF fin(1) flo ij]
               elt2_finite[OF fin(2) fsz ij] elt2_positive[OF pos fsz ij])+
  qed
  have "map (\<lambda>i. map (\<lambda>j. fadd (elt2 ?pr i j) (elt2 lo i j)) [0..<n]) [0..<m] = expand (m, n) p"
    unfolding expand_def by (auto simp: el)
  with r have "local_to_global b ?q = Inr (expand sh p)"
    by (simp add: local_to_global_def lo sz pr shmn)
  with g show ?thesis by (auto simp: expand_id)
qed

theorem round_trip_witness:
  "global_to_local (Box [[Fin 0, Fin 0]] [[Fin 10, Fin 20]] [1, 2]) [[Fin 5, Fin 10], [Fin 15, Fin 10]]
     = Inr [[Fin (1/2), Fin (1/2)], [Fin (3/2), Fin (1/2)]]
   \<and> local_to_global (Box [[Fin 0, Fin 0]] [[Fin 10, Fin 20]] [1, 2])
         [[Fin (1/2), Fin (1/2)], [Fin (3/2), Fin (1/2)]]
     = Inr [[Fin 5, Fin 10], [Fin 15, Fin 10]]"
proof -
  let ?b = "Box [[Fin 0, Fin 0]] [[Fin 10, Fin 20]] [1, 2]"
  let ?p = "[[Fin 5, Fin 10], [Fin 15, Fin 10]]"
  have lo: "lower ?b = Inr [[Fin 0, Fin 0]]" by simp
  have sz: "size_b ?b = Inr [[Fin 10, Fin 20]]" by code_simp
  have fin: "tfinite [[Fin 0, Fin 0]]" "tfinite [[Fin 10, Fin 20]]" "tfinite ?p" by code_simp+
  have pos: "tpositive [[Fin 10, Fin 20]]" by code_simp
  have sh: "bshape (combined_shape ?p [[Fin 0, Fin 0]]) (tshape [[Fin 10, Fin 20]]) = Some (2, 2)"
    by code_simp
  have g: "global_to_local ?b ?p = Inr [[Fin (1/2), Fin (1/2)], [Fin (3/2), Fin (1/2)]]"
    by code_simp
  have "tshape ?p = Some (2, 2)" by code_simp
  with round_trip[OF lo sz fin pos sh] g show ?thesis by auto
qed

text \<open>
  The claim as the spec states it fails on a box with an infinite corner, which has a
  strictly positive size: for \<^verbatim>\<open>Box[:5]\<close> and the point 0 the round trip is NaN.
\<close>

theorem round_trip_counterexample:
  "getitem (One (Slice None (Some (Fin 5)) None)) = Inr (Box [[NInf]] [[Fin 5]] [1, 1])
   \<and> size_b (Box [[NInf]] [[Fin 5]] [1, 1]) = Inr [[PInf]]
   \<and> tpositive [[PInf]]
   \<and> global_to_local (Box [[NInf]] [[Fin 5]] [1, 1]) [[Fin 0]] = Inr [[NaN]]
   \<and> local_to_global (Box [[NInf]] [[Fin 5]] [1, 1]) [[NaN]] = Inr [[NaN]]
   \<and> \<not> close (1/100000) 0 [[NaN]] [[Fin 0]]"
  by code_simp

section \<open>The cells of a grid over the unit interval\<close>

text \<open>Tensors of \<open>n\<close> rows with one component each.\<close>

lemma tshape_column:
  assumes "0 < n"
  shows "tshape (map (\<lambda>i. [g i]) [0..<n]) = Some (n, 1)"
  using tshape_map_upt[OF assms, of "\<lambda>i j. g i" 1] by simp

lemma elt2_column:
  assumes "i < n"
  shows "elt2 (map (\<lambda>i. [g i]) [0..<n]) i j = g i"
  using assms by (auto simp: elt2_def elt_def)

lemma tmap2_column:
  assumes "0 < n"
  shows "tmap2 f (map (\<lambda>i. [g i]) [0..<n]) [[c]] = Inr (map (\<lambda>i. [f (g i) c]) [0..<n])"
proof -
  have "tshape [[c]] = Some (1, 1)" by (simp add: tshape_def)
  then have cs: "combined_shape (map (\<lambda>i. [g i]) [0..<n]) [[c]] = Some (n, 1)"
    by (simp add: combined_shape_def tshape_column[OF assms] bshape_def bdim_def)
  have "elt2 [[c]] i j = c" for i j by (simp add: elt2_def elt_def)
  then show ?thesis
    unfolding tmap2_Inr[OF cs] by (simp add: elt2_column)
qed

lemma meshgrid_one: "meshgrid [xs] = map (\<lambda>x. [x]) xs"
  by (induction xs) simp_all

lemma linspace_midpoints:
  assumes "0 < n"
  shows "linspace (0.5 / real n) (1 - 0.5 / real n) n
       = map (\<lambda>i. (real i + 1/2) / real n) [0..<n]"
proof (cases "1 < n")
  case True
  then have "(1 - 0.5 / real n - 0.5 / real n) / real (n - 1) = 1 / real n"
    by (simp add: field_simps of_nat_diff)
  then show ?thesis using True
    by (simp add: linspace_def field_simps)
next
  case False
  with assms have "n = 1" by simp
  then show ?thesis by (simp add: linspace_def)
qed

lemma GridCell_init_unit:
  assumes n: "0 < n"
  shows "GridCell_init [(name, SPATIAL_DIM, n)] (Box [[Fin 0]] [[Fin 1]] [1, 1])
       = Inr (GridCell (map (\<lambda>i. [Fin ((real i + 1/2) / real n)]) [0..<n])
                       [[Fin (1 / (2 * real n))]] [n]
                       [(name, SPATIAL_DIM, n)] (Box [[Fin 0]] [[Fin 1]] [1, 1]))"
proof -
  let ?b = "Box [[Fin 0]] [[Fin 1]] [1, 1]"
  let ?x = "\<lambda>i. (real i + 1/2) / real n"
  let ?pts = "map (\<lambda>i. [Fin (?x i)]) [0..<n]"
  let ?r = "[(name, SPATIAL_DIM, n)]"
  have sizes: "sizes ?r = [n]" by (simp add: sizes_def)
  have sp: "(spatial_rank ?r \<noteq> rank ?r) = False" by (simp add: spatial_rank_def rank_def)
  have z: "(0 \<in> set (sizes ?r)) = False" using n by (simp add: sizes)
  have "map (\<lambda>n. map Fin (linspace (0.5 / real n) (1 - 0.5 / real n) n)) [n]
      = [map Fin (map ?x [0..<n])]"
    by (simp only: list.map linspace_midpoints[OF n])
  then have lc: "meshgrid (map (\<lambda>n. map Fin (linspace (0.5 / real n) (1 - 0.5 / real n) n))
                          (sizes ?r)) = ?pts"
    by (simp only: sizes meshgrid_one map_map comp_def)
  have sz: "size_b ?b = Inr [[Fin 1]]" by code_simp
  have lo: "lower ?b = Inr [[Fin 0]]" by simp
  have mul: "tmul ?pts [[Fin 1]] = Inr ?pts"
    unfolding tmul_def tmap2_column[OF n] by simp
  have add: "tadd ?pts [[Fin 0]] = Inr ?pts"
    unfolding tadd_def tmap2_column[OF n] by simp
  have l2g: "local_to_global ?b ?pts = Inr ?pts"
    by (simp only: local_to_global_def sz lo mul add bindE.simps)
  have "tdiv [[Fin 1]] [[Fin (real n)]] = Inr [[Fin (1 / real n)]]"
    using n tmap2_column[of 1 fdiv "\<lambda>i. Fin 1" "Fin (real n)"] by (simp add: tdiv_def)
  then have td: "tdiv [[Fin 1]] [map (\<lambda>n. Fin (real n)) (sizes ?r)] = Inr [[Fin (1 / real n)]]"
    by (simp add: sizes)
  have sd: "sdiv [[Fin (1 / real n)]] (Fin 2) = [[Fin (1 / (2 * real n))]]"
    by (simp add: sdiv_def)
  have "tshape [[Fin (1 / (2 * real n))]] = Some (1, 1)" by (simp add: tshape_def)
  then have cs: "combined_shape ?pts [[Fin (1 / (2 * real n))]] = Some (n, 1)"
    unfolding combined_shape_def tshape_column[OF n] by (simp add: bshape_def bdim_def)
  show ?thesis
    by (simp only: GridCell_init_def sp z if_False Let_def lc l2g sz td sd cs bindE.simps
                   option.case prod.case)
qed

text \<open>
  Claim C2. A \<^verbatim>\<open>GridCell\<close> built from a resolution of \<open>n\<close> cells on one spatial axis
  over the bounds \<^verbatim>\<open>Box([0],[1])\<close> has the cell centers \<open>0.5/n, 1.5/n, \<dots>, (n-0.5)/n\<close>
  and the half size \<open>1/(2n)\<close>. The construction succeeds for every \<open>n > 0\<close>; for
  \<open>n = 0\<close> the division \<^verbatim>\<open>0.5 / size\<close> raises and no grid cell is constructed.
\<close>

theorem GridCell_centers:
  "GridCell_init [(name, SPATIAL_DIM, n)] (Box [[Fin 0]] [[Fin 1]] [1, 1])
     = (if n = 0 then Inl ZeroDivisionError
        else Inr (GridCell (map (\<lambda>i. [Fin ((real i + 1/2) / real n)]) [0..<n])
                           [[Fin (1 / (2 * real n))]] [n]
                           [(name, SPATIAL_DIM, n)] (Box [[Fin 0]] [[Fin 1]] [1, 1])))"
proof (cases "n = 0")
  case True
  then show ?thesis
    by (simp add: GridCell_init_def spatial_rank_def rank_def sizes_def)
next
  case False
  then have "0 < n" by simp
  from GridCell_init_unit[OF this, of name] False show ?thesis by simp
qed

text \<open>The example of the spec: four cells.\<close>

theorem GridCell_centers_witness:
  "Box_init [[Fin 0]] [[Fin 1]] = Inr (Box [[Fin 0]] [[Fin 1]] [1, 1])
   \<and> GridCell_init [(''x'', SPATIAL_DIM, 4)] (Box [[Fin 0]] [[Fin 1]] [1, 1])
       = Inr (GridCell [[Fin 0.125], [Fin 0.375], [Fin 0.625], [Fin 0.875]] [[Fin 0.125]] [4]
                [(''x'', SPATIAL_DIM, 4)] (Box [[Fin 0]] [[Fin 1]] [1, 1]))
   \<and> center (GridCell [[Fin 0.125], [Fin 0.375], [Fin 0.625], [Fin 0.875]] [[Fin 0.125]] [4]
                [(''x'', SPATIAL_DIM, 4)] (Box [[Fin 0]] [[Fin 1]] [1, 1]))
       = Inr [[Fin 0.125], [Fin 0.375], [Fin 0.625], [Fin 0.875]]
   \<and> half_size (GridCell [[Fin 0.125], [Fin 0.375], [Fin 0.625], [Fin 0.875]] [[Fin 0.125]] [4]
                [(''x'', SPATIAL_DIM, 4)] (Box [[Fin 0]] [[Fin 1]] [1, 1]))
       = Inr [[Fin 0.125]]"
proof -
  have "Box_init [[Fin 0]] [[Fin 1]] = Inr (Box [[Fin 0]] [[Fin 1]] [1, 1])" by code_simp
  moreover have "map (\<lambda>i. [Fin ((real i + 1/2) / real 4)]) [0..<4]
      = [[Fin 0.125], [Fin 0.375], [Fin 0.625], [Fin 0.875]]"
    by (simp add: upt_rec)
  moreover have "[[Fin (1 / (2 * real 4))]] = [[Fin 0.125]]" by simp
  ultimately show ?thesis using GridCell_centers[of "''x''" 4] by simp
qed

section \<open>contains\<close>

lemma contains_value:
  assumes "lower ob = Inr olo" "lower b = Inr lo" "upper ob = Inr oup" "upper b = Inr up"
    and "combined_shape olo lo = Some (m1, n1)" "combined_shape oup up = Some (m2, n2)"
  shows "contains b (ABox ob) =
      Inr ((\<forall>i<m1. \<forall>j<n1. fge (elt2 olo i j) (elt2 lo i j))
           \<and> (\<forall>i<m2. \<forall>j<n2. fle (elt2 oup i j) (elt2 up i j)))"
proof -
  have ge: "tge olo lo = Inr (map (\<lambda>i. map (\<lambda>j. fge (elt2 olo i j) (elt2 lo i j)) [0..<n1]) [0..<m1])"
    unfolding tge_def using assms(5) by (rule tmap2_Inr)
  have le: "tle oup up = Inr (map (\<lambda>i. map (\<lambda>j. fle (elt2 oup i j) (elt2 up i j)) [0..<n2]) [0..<m2])"
    unfolding tle_def using assms(6) by (rule tmap2_Inr)
  show ?thesis
    by (simp add: contains_def assms(1-4) ge le np_all_map)
qed

lemma contains_refl_no_nan:
  assumes lo: "lower b = Inr lo" and up: "upper b = Inr up"
    and s1: "tshape lo = Some (m1, n1)" and s2: "tshape up = Some (m2, n2)"
    and nn: "tno_nan lo" "tno_nan up"
  shows "contains b (ABox b) = Inr True"
proof -
  have f1: "fits (m1, n1) (tshape lo)" and f2: "fits (m2, n2) (tshape up)"
    by (simp_all only: s1 s2 fits_refl)
  have "contains b (ABox b) =
        Inr ((\<forall>i<m1. \<forall>j<n1. fge (elt2 lo i j) (elt2 lo i j))
             \<and> (\<forall>i<m2. \<forall>j<n2. fle (elt2 up i j) (elt2 up i j)))"
    using lo lo up up combined_shape_same[OF s1] combined_shape_same[OF s2]
    by (rule contains_value)
  moreover have "fge (elt2 lo i j) (elt2 lo i j)" if "i < m1" "j < n1" for i j
    unfolding fge_def using elt2_no_nan[OF nn(1) f1 that] by (rule fle_refl)
  moreover have "fle (elt2 up i j) (elt2 up i j)" if "i < m2" "j < n2" for i j
    using elt2_no_nan[OF nn(2) f2 that] by (rule fle_refl)
  ultimately show ?thesis by simp
qed

lemma contains_refl_invariant:
  assumes lo: "lower b = Inr lo" and up: "upper b = Inr up"
    and c: "combined_shape lo up = Some (m, n)" and n: "0 < n"
    and inv: "\<forall>i<m. \<forall>j<n. fle (elt2 lo i j) (elt2 up i j)"
  shows "contains b (ABox b) = Inr True"
proof -
  from c obtain m1 n1 m2 n2 where s: "tshape lo = Some (m1, n1)" "tshape up = Some (m2, n2)"
    by (rule combined_shape_SomeD)
  have m: "0 < m" using combined_shape_pos[OF c] .
  have f: "fits (m, n) (tshape lo)" "fits (m, n) (tshape up)"
    using fits_bshape[OF c[unfolded combined_shape_def] fits_refl] by auto
  have "tno_nan lo" using s(1) f(1) m n
  proof (rule tno_nan_elt2I)
    fix i j assume "i < m" "j < n"
    with inv have "fle (elt2 lo i j) (elt2 up i j)" by blast
    then show "elt2 lo i j \<noteq> NaN" using fle_not_NaN by blast
  qed
  moreover have "tno_nan up" using s(2) f(2) m n
  proof (rule tno_nan_elt2I)
    fix i j assume "i < m" "j < n"
    with inv have "fle (elt2 lo i j) (elt2 up i j)" by blast
    then show "elt2 up i j \<noteq> NaN" using fle_not_NaN by blast
  qed
  ultimately show ?thesis using lo up s by (intro contains_refl_no_nan)
qed

text \<open>
  Claim C3. \<^verbatim>\<open>contains(other)\<close> raises for every argument that is not a box
  (\<^verbatim>\<open>NotImplementedError\<close>, the error the spec calls UnsupportedOperandError). For a box
  it returns one boolean: true iff \<open>other.lower \<ge> self.lower\<close> and
  \<open>other.upper \<le> self.upper\<close> hold for every component of every batch element. And
  \<open>b.contains(b)\<close> is true for every box \<open>b\<close>: a box of at least one axis whose corners
  meet the invariant of the data model, \<open>lower \<le> upper\<close> componentwise.
\<close>

theorem contains_iff:
  "contains b NoBox = Inl NotImplementedError
   \<and> (lower ob = Inr olo \<and> lower b = Inr lo \<and> upper ob = Inr oup \<and> upper b = Inr up
        \<and> combined_shape olo lo = Some (m1, n1) \<and> combined_shape oup up = Some (m2, n2) \<longrightarrow>
      contains b (ABox ob) =
        Inr ((\<forall>i<m1. \<forall>j<n1. fge (elt2 olo i j) (elt2 lo i j))
             \<and> (\<forall>i<m2. \<forall>j<n2. fle (elt2 oup i j) (elt2 up i j))))
   \<and> (lower b = Inr lo \<and> upper b = Inr up \<and> combined_shape lo up = Some (m, n) \<and> 0 < n
        \<and> (\<forall>i<m. \<forall>j<n. fle (elt2 lo i j) (elt2 up i j)) \<longrightarrow>
      contains b (ABox b) = Inr True)"
proof (intro conjI impI)
  show "contains b NoBox = Inl NotImplementedError" by (simp add: contains_def)
next
  assume "lower ob = Inr olo \<and> lower b = Inr lo \<and> upper ob = Inr oup \<and> upper b = Inr up
        \<and> combined_shape olo lo = Some (m1, n1) \<and> combined_shape oup up = Some (m2, n2)"
  then show "contains b (ABox ob) =
        Inr ((\<forall>i<m1. \<forall>j<n1. fge (elt2 olo i j) (elt2 lo i j))
             \<and> (\<forall>i<m2. \<forall>j<n2. fle (elt2 oup i j) (elt2 up i j)))"
    by (intro contains_value) simp_all
next
  assume "lower b = Inr lo \<and> upper b = Inr up \<and> combined_shape lo up = Some (m, n) \<and> 0 < n
        \<and> (\<forall>i<m. \<forall>j<n. fle (elt2 lo i j) (elt2 up i j))"
  then have "lower b = Inr lo" "upper b = Inr up" "combined_shape lo up = Some (m, n)" "0 < n"
    "\<forall>i<m. \<forall>j<n. fle (elt2 lo i j) (elt2 up i j)" by simp_all
  then show "contains b (ABox b) = Inr True" by (rule contains_refl_invariant)
qed

theorem contains_iff_witness:
  "contains (Box [[Fin 0, Fin 0]] [[Fin 10, Fin 20]] [1, 2]) NoBox = Inl NotImplementedError
   \<and> contains (Box [[Fin 0, Fin 0]] [[Fin 10, Fin 20]] [1, 2])
        (ABox (Cuboid [[Fin 3, Fin 3], [Fin 5, Fin 15]] [[Fin 1, Fin 1]] [2])) = Inr True
   \<and> contains (Box [[Fin 0, Fin 0]] [[Fin 10, Fin 20]] [1, 2])
        (ABox (Cuboid [[Fin 3, Fin 3], [Fin 5, Fin 15]] [[Fin 1, Fin 6]] [2])) = Inr False
   \<and> contains (Box [[Fin 0, Fin 0]] [[Fin 10, Fin 20]] [1, 2])
        (ABox (Box [[Fin 0, Fin 0]] [[Fin 10, Fin 20]] [1, 2])) = Inr True
   \<and> contains (Box [[NInf, Fin 0]] [[Fin 5, PInf]] [1, 2])
        (ABox (Box [[NInf, Fin 0]] [[Fin 5, PInf]] [1, 2])) = Inr True"
proof -
  let ?lo = "[[Fin 0, Fin 0]]" and ?up = "[[Fin 10, Fin 20]]"
  let ?b = "Box ?lo ?up [1, 2]"
  let ?c = "Cuboid [[Fin 3, Fin 3], [Fin 5, Fin 15]] [[Fin 1, Fin 1]] [2]"
  let ?d = "Cuboid [[Fin 3, Fin 3], [Fin 5, Fin 15]] [[Fin 1, Fin 6]] [2]"
  let ?il = "[[NInf, Fin 0]]" and ?iu = "[[Fin 5, PInf]]"
  let ?h = "Box ?il ?iu [1, 2]"
  have b: "lower ?b = Inr ?lo" "upper ?b = Inr ?up" by simp_all
  have h: "lower ?h = Inr ?il" "upper ?h = Inr ?iu" by simp_all
  have c: "lower ?c = Inr [[Fin 2, Fin 2], [Fin 4, Fin 14]]"
    "upper ?c = Inr [[Fin 4, Fin 4], [Fin 6, Fin 16]]" by code_simp+
  have d: "lower ?d = Inr [[Fin 2, Fin (- 3)], [Fin 4, Fin 9]]"
    "upper ?d = Inr [[Fin 4, Fin 9], [Fin 6, Fin 21]]" by code_simp+
  have sc: "combined_shape [[Fin 2, Fin 2], [Fin 4, Fin 14]] ?lo = Some (2, 2)"
    "combined_shape [[Fin 4, Fin 4], [Fin 6, Fin 16]] ?up = Some (2, 2)" by code_simp+
  have sd: "combined_shape [[Fin 2, Fin (- 3)], [Fin 4, Fin 9]] ?lo = Some (2, 2)"
    "combined_shape [[Fin 4, Fin 9], [Fin 6, Fin 21]] ?up = Some (2, 2)" by code_simp+
  have sb: "combined_shape ?lo ?up = Some (1, 2)" "combined_shape ?il ?iu = Some (1, 2)"
    "(0::nat) < 2" by code_simp+
  have inv: "\<forall>i<1. \<forall>j<2. fle (elt2 ?lo i j) (elt2 ?up i j)"
    "\<forall>i<1. \<forall>j<2. fle (elt2 ?il i j) (elt2 ?iu i j)"
    by (simp_all add: all_less_two elt2_def elt_def)
  note t = contains_iff[where b = ?b and lo = ?lo and up = ?up and m = 1 and n = 2]
  note u = contains_iff[where b = ?h and lo = ?il and up = ?iu and m = 1 and n = 2]
  have 1: "contains ?b NoBox = Inl NotImplementedError"
    using t[of ?b ?lo ?up 1 2 1 2] by blast
  have "contains ?b (ABox ?c) =
      Inr ((\<forall>i<2. \<forall>j<2. fge (elt2 [[Fin 2, Fin 2], [Fin 4, Fin 14]] i j) (elt2 ?lo i j))
           \<and> (\<forall>i<2. \<forall>j<2. fle (elt2 [[Fin 4, Fin 4], [Fin 6, Fin 16]] i j) (elt2 ?up i j)))"
    using t[of ?c _ _ 2 2 2 2] b c sc by blast
  also have "\<dots> = Inr True" by (simp add: all_less_two) code_simp
  finally have 2: "contains ?b (ABox ?c) = Inr True" .
  have "contains ?b (ABox ?d) =
      Inr ((\<forall>i<2. \<forall>j<2. fge (elt2 [[Fin 2, Fin (- 3)], [Fin 4, Fin 9]] i j) (elt2 ?lo i j))
           \<and> (\<forall>i<2. \<forall>j<2. fle (elt2 [[Fin 4, Fin 9], [Fin 6, Fin 21]] i j) (elt2 ?up i j)))"
    using t[of ?d _ _ 2 2 2 2] b d sd by blast
  also have "\<dots> = Inr False" by (simp add: all_less_two) code_simp
  finally have 3: "contains ?b (ABox ?d) = Inr False" .
  have 4: "contains ?b (ABox ?b) = Inr True"
    using t[of ?b ?lo ?up 1 2 1 2] b sb inv by blast
  have 5: "contains ?h (ABox ?h) = Inr True"
    using u[of ?h ?il ?iu 1 2 1 2] h sb inv by blast
  from 1 2 3 4 5 show ?thesis by blast
qed

section \<open>Equality of boxes\<close>

text \<open>
  Claim C4. \<^verbatim>\<open>Box.__eq__\<close> compares the shapes of the lower corners and the lower
  corners up to the tolerance of \<^verbatim>\<open>math.close\<close>, and nothing else: two boxes with lower
  corners of one shape that are numerically close are equal whatever their upper
  corners are.
\<close>

theorem Box_eq_ignores_upper:
  "box_eq rtol atol (Box lo1 up1 s1) (ABox (Box lo2 up2 s2))
      = Inr (tshape lo1 = tshape lo2 \<and> close rtol atol lo1 lo2)
   \<and> (tshape lo1 = tshape lo2 \<and> close rtol atol lo1 lo2 \<longrightarrow>
        box_eq rtol atol (Box lo1 up1 s1) (ABox (Box lo2 up2 s2)) = Inr True)
   \<and> (lower ob = Inr olo \<longrightarrow>
        box_eq rtol atol (Box lo1 up1 s1) (ABox ob)
          = Inr (tshape lo1 = tshape olo \<and> close rtol atol lo1 olo))
   \<and> box_eq rtol atol (Box lo1 up1 s1) NoBox = Inr False"
  by simp

theorem Box_eq_ignores_upper_witness:
  "tshape [[Fin 1, Fin 1]] = tshape [[Fin 1.000001, Fin 1]]
   \<and> close (1/100000) 0 [[Fin 1, Fin 1]] [[Fin 1.000001, Fin 1]]
   \<and> [[Fin 10, Fin 20]] \<noteq> [[Fin 2, Fin 2]]
   \<and> box_eq (1/100000) 0 (Box [[Fin 1, Fin 1]] [[Fin 10, Fin 20]] [1, 2])
        (ABox (Box [[Fin 1.000001, Fin 1]] [[Fin 2, Fin 2]] [1, 2])) = Inr True"
proof -
  have h: "tshape [[Fin 1, Fin 1]] = tshape [[Fin 1.000001, Fin 1]]"
    "close (1/100000) 0 [[Fin 1, Fin 1]] [[Fin 1.000001, Fin 1]]"
    "[[Fin 10, Fin 20]] \<noteq> [[Fin 2, Fin 2]]" by code_simp+
  from Box_eq_ignores_upper[of "1/100000" 0 "[[Fin 1, Fin 1]]" "[[Fin 10, Fin 20]]" "[1, 2]"
      "[[Fin 1.000001, Fin 1]]" "[[Fin 2, Fin 2]]" "[1, 2]"] h
  show ?thesis by blast
qed

section \<open>lies_inside\<close>

text \<open>
  Claim C5. For every box \<open>b\<close> and location \<open>p\<close>, \<^verbatim>\<open>lies_inside(p)\<close> is the elementwise
  conjunction \<open>lower \<le> p \<le> upper\<close> reduced with logical AND over the vector dimension
  only: the result has one boolean per element of the batch and spatial dimensions that
  \<open>p\<close>, \<open>lower\<close> and \<open>upper\<close> broadcast to, and it is an error exactly when they do not
  broadcast.
\<close>

theorem lies_inside_conjunction:
  assumes lo: "lower b = Inr lo" and up: "upper b = Inr up"
  shows "lies_inside b p =
     (case bshape (combined_shape p lo) (combined_shape p up) of
        None \<Rightarrow> Inl ShapeError
      | Some (m, n) \<Rightarrow>
          Inr (map (\<lambda>i. list_all (\<lambda>j. fge (elt2 p i j) (elt2 lo i j) \<and> fle (elt2 p i j) (elt2 up i j))
                      [0..<n]) [0..<m]))"
proof (cases "tge p lo")
  case (Inl e)
  then have "combined_shape p lo = None" "e = ShapeError"
    by (auto simp: tge_def tmap2_def split: option.splits)
  with Inl show ?thesis by (simp add: lies_inside_def lo up bshape_None_left)
next
  case ge: (Inr ge)
  show ?thesis
  proof (cases "tle p up")
    case (Inl e)
    then have "combined_shape p up = None" "e = ShapeError"
      by (auto simp: tle_def tmap2_def split: option.splits)
    with Inl ge show ?thesis by (simp add: lies_inside_def lo up bshape_None_right)
  next
    case le: (Inr le)
    have sge: "tshape ge = combined_shape p lo" using ge unfolding tge_def by (rule tmap2_shape)
    have sle: "tshape le = combined_shape p up" using le unfolding tle_def by (rule tmap2_shape)
    have cs: "combined_shape ge le = bshape (combined_shape p lo) (combined_shape p up)"
      by (simp add: combined_shape_def[of ge le] sge sle)
    show ?thesis
    proof (cases "combined_shape ge le")
      case None
      then have "tand ge le = Inl ShapeError" by (simp add: tand_def tmap2_Inl)
      with None cs ge le show ?thesis by (simp add: lies_inside_def lo up)
    next
      case (Some sh)
      obtain m n where sh: "sh = (m, n)" by (cases sh)
      from Some sh have c: "combined_shape ge le = Some (m, n)" by simp
      from c obtain m1 n1 m2 n2 where s: "tshape ge = Some (m1, n1)" "tshape le = Some (m2, n2)"
        "bdim m1 m2 = Some m" "bdim n1 n2 = Some n" by (rule combined_shape_SomeD)
      have eg: "elt2 ge i j = fge (elt2 p i j) (elt2 lo i j)" if "i < m" "j < n" for i j
        using ge[unfolded tge_def] s(1)
      proof (rule elt2_tmap2)
        show "m1 = 1 \<or> i < m1" using bdim_SomeD[OF s(3)] that by auto
        show "n1 = 1 \<or> j < n1" using bdim_SomeD[OF s(4)] that by auto
      qed
      have el: "elt2 le i j = fle (elt2 p i j) (elt2 up i j)" if "i < m" "j < n" for i j
        using le[unfolded tle_def] s(2)
      proof (rule elt2_tmap2)
        show "m2 = 1 \<or> i < m2" using bdim_SomeD[OF s(3)] that by auto
        show "n2 = 1 \<or> j < n2" using bdim_SomeD[OF s(4)] that by auto
      qed
      have "tand ge le = Inr (map (\<lambda>i. map (\<lambda>j. elt2 ge i j \<and> elt2 le i j) [0..<n]) [0..<m])"
        unfolding tand_def using c by (rule tmap2_Inr)
      then have "lies_inside b p =
          Inr (map (\<lambda>i. list_all (\<lambda>j. elt2 ge i j \<and> elt2 le i j) [0..<n]) [0..<m])"
        by (simp add: lies_inside_def lo up ge le math_all_map)
      also have "map (\<lambda>i. list_all (\<lambda>j. elt2 ge i j \<and> elt2 le i j) [0..<n]) [0..<m]
           = map (\<lambda>i. list_all (\<lambda>j. fge (elt2 p i j) (elt2 lo i j) \<and> fle (elt2 p i j) (elt2 up i j))
                      [0..<n]) [0..<m]"
        by (rule map_cong[OF refl], rule list.pred_cong[OF refl]) (simp add: eg el)
      finally have li: "lies_inside b p =
          Inr (map (\<lambda>i. list_all (\<lambda>j. fge (elt2 p i j) (elt2 lo i j) \<and> fle (elt2 p i j) (elt2 up i j))
                      [0..<n]) [0..<m])" .
      have "bshape (combined_shape p lo) (combined_shape p up) = Some (m, n)"
        using cs c by simp
      then show ?thesis by (simp add: li)
    qed
  qed
qed

text \<open>
  The scenario of the spec: \<^verbatim>\<open>Box((0,0),(10,20))\<close> and the locations \<^verbatim>\<open>(5,10)\<close> and
  \<^verbatim>\<open>(15,10)\<close>, as one tensor of two batch elements and one at a time.
\<close>

theorem lies_inside_conjunction_witness:
  "Box_init [[Fin 0, Fin 0]] [[Fin 10, Fin 20]] = Inr (Box [[Fin 0, Fin 0]] [[Fin 10, Fin 20]] [1, 2])
   \<and> lies_inside (Box [[Fin 0, Fin 0]] [[Fin 10, Fin 20]] [1, 2])
        [[Fin 5, Fin 10], [Fin 15, Fin 10]] = Inr [True, False]
   \<and> lies_inside (Box [[Fin 0, Fin 0]] [[Fin 10, Fin 20]] [1, 2]) [[Fin 5, Fin 10]] = Inr [True]
   \<and> lies_inside (Box [[Fin 0, Fin 0]] [[Fin 10, Fin 20]] [1, 2]) [[Fin 15, Fin 10]] = Inr [False]"
proof -
  let ?lo = "[[Fin 0, Fin 0]]" and ?up = "[[Fin 10, Fin 20]]"
  let ?b = "Box ?lo ?up [1, 2]"
  have lo: "lower ?b = Inr ?lo" and up: "upper ?b = Inr ?up" by simp_all
  have "Box_init ?lo ?up = Inr ?b" by code_simp
  moreover have "lies_inside ?b [[Fin 5, Fin 10], [Fin 15, Fin 10]] = Inr [True, False]"
    unfolding lies_inside_conjunction[OF lo up] by code_simp
  moreover have "lies_inside ?b [[Fin 5, Fin 10]] = Inr [True]"
    unfolding lies_inside_conjunction[OF lo up] by code_simp
  moreover have "lies_inside ?b [[Fin 15, Fin 10]] = Inr [False]"
    unfolding lies_inside_conjunction[OF lo up] by code_simp
  ultimately show ?thesis by simp
qed

section \<open>approximate_signed_distance\<close>

lemma foldl_fmax_Fin:
  "foldl fmax (Fin x) (map Fin xs) = Fin (Max (set (x # xs)))"
proof (induction xs arbitrary: x)
  case Nil
  show ?case by simp
next
  case (Cons y ys)
  have "fmax (Fin x) (Fin y) = Fin (max x y)" by (simp add: fmax_def max_def)
  then have "foldl fmax (Fin x) (map Fin (y # ys)) = Fin (Max (set (max x y # ys)))"
    using Cons.IH[of "max x y"] by simp
  also have "Max (set (max x y # ys)) = Max (set (x # y # ys))"
    by (cases "ys = []") (simp_all add: Max_insert max.assoc)
  finally show ?case .
qed

lemma dist_value:
  assumes "is_Fin x" "is_Fin l" "is_Fin u"
  shows "fsub (fabs (fsub x (fmul (Fin (1/2)) (fadd l u)))) (fmul (fsub u l) (Fin (1/2)))
       = Fin (\<bar>val x - (val l + val u) / 2\<bar> - (val u - val l) / 2)"
  using assms by (cases x; cases l; cases u) (simp_all add: fsub_def)

lemma math_max_map:
  assumes "0 < m" "0 < n"
  shows "math_max (map (\<lambda>i. map (g i) [0..<n]) [0..<m])
       = Inr (map (\<lambda>i. foldl fmax (g i 0) (map (g i) [Suc 0..<n])) [0..<m])"
proof -
  have "tshape (map (\<lambda>i. map (g i) [0..<n]) [0..<m]) = Some (m, n)"
    using assms(1) by (rule tshape_map_upt)
  moreover have "[0..<n] = 0 # [Suc 0..<n]" using assms(2) by (simp add: upt_conv_Cons)
  ultimately show ?thesis using assms(2) by (simp add: math_max_def comp_def)
qed

lemma asd_formula:
  assumes lo: "lower b = Inr lo" and up: "upper b = Inr up"
  shows "approximate_signed_distance b p =
     (case bshape (tshape p) (combined_shape lo up) of
        None \<Rightarrow> Inl ShapeError
      | Some (m, n) \<Rightarrow>
          if n = 0 then Inl ValueError
          else Inr (map (\<lambda>i. foldl fmax
                 (fsub (fabs (fsub (elt2 p i 0) (fmul (Fin (1/2)) (fadd (elt2 lo i 0) (elt2 up i 0)))))
                       (fmul (fsub (elt2 up i 0) (elt2 lo i 0)) (Fin (1/2))))
                 (map (\<lambda>j. fsub (fabs (fsub (elt2 p i j) (fmul (Fin (1/2)) (fadd (elt2 lo i j) (elt2 up i j)))))
                               (fmul (fsub (elt2 up i j) (elt2 lo i j)) (Fin (1/2))))
                      [Suc 0..<n])) [0..<m]))"
proof (cases "combined_shape lo up")
  case None
  then have "tadd lo up = Inl ShapeError" unfolding tadd_def by (rule tmap2_Inl)
  with None show ?thesis by (simp add: approximate_signed_distance_def lo up bshape_None_right)
next
  case (Some s0)
  obtain a0 b0 where s0: "s0 = (a0, b0)" by (cases s0)
  note c0 = Some[unfolded s0]
  have S: "tadd lo up = Inr (map (\<lambda>i. map (\<lambda>j. fadd (elt2 lo i j) (elt2 up i j)) [0..<b0]) [0..<a0])"
    (is "_ = Inr ?S") unfolding tadd_def using c0 by (rule tmap2_Inr)
  have sS: "tshape ?S = Some (a0, b0)" using tmap2_shape[OF S[unfolded tadd_def]] c0 by simp
  let ?c = "smul_l (Fin (1/2)) ?S"
  have sc: "tshape ?c = Some (a0, b0)" unfolding smul_l_def tshape_map_map by (rule sS)
  have c0': "combined_shape up lo = Some (a0, b0)" by (subst combined_shape_commute) (rule c0)
  have E: "tsub up lo = Inr (map (\<lambda>i. map (\<lambda>j. fsub (elt2 up i j) (elt2 lo i j)) [0..<b0]) [0..<a0])"
    (is "_ = Inr ?E") unfolding tsub_def using c0' by (rule tmap2_Inr)
  have sE: "tshape ?E = Some (a0, b0)" using tmap2_shape[OF E[unfolded tsub_def]] c0' by simp
  let ?e = "smul_r ?E (Fin (1/2))"
  have se: "tshape ?e = Some (a0, b0)" unfolding smul_r_def tshape_map_map by (rule sE)
  have cpc: "combined_shape p ?c = bshape (tshape p) (combined_shape lo up)"
    by (simp only: combined_shape_def[of p ?c] sc c0)
  show ?thesis
  proof (cases "bshape (tshape p) (combined_shape lo up)")
    case None
    then have "tsub p ?c = Inl ShapeError" unfolding tsub_def cpc[symmetric] by (rule tmap2_Inl)
    with None show ?thesis by (simp add: approximate_signed_distance_def lo up S E)
  next
    case (Some sh)
    obtain m n where sh: "sh = (m, n)" by (cases sh)
    note c1 = Some[unfolded sh]
    have c1': "combined_shape p ?c = Some (m, n)" using c1 cpc by simp
    have d: "tsub p ?c = Inr (map (\<lambda>i. map (\<lambda>j. fsub (elt2 p i j) (elt2 ?c i j)) [0..<n]) [0..<m])"
      (is "_ = Inr ?d") unfolding tsub_def using c1' by (rule tmap2_Inr)
    have sd: "tshape ?d = Some (m, n)" using tmap2_shape[OF d[unfolded tsub_def]] c1' by simp
    have sa: "tshape (tabs ?d) = Some (m, n)" unfolding tabs_def tshape_map_map by (rule sd)
    have f0: "fits (m, n) (Some (a0, b0))" and fp: "fits (m, n) (tshape p)"
      using fits_bshape[OF c1[unfolded c0] fits_refl] by auto
    have flo: "fits (m, n) (tshape lo)" and fup: "fits (m, n) (tshape up)"
      using fits_bshape[OF c0[unfolded combined_shape_def] f0] by auto
    have c2: "combined_shape (tabs ?d) ?e = Some (m, n)"
      unfolding combined_shape_def sa se using f0 by (rule bshape_absorb)
    have dist: "tsub (tabs ?d) ?e
        = Inr (map (\<lambda>i. map (\<lambda>j. fsub (elt2 (tabs ?d) i j) (elt2 ?e i j)) [0..<n]) [0..<m])"
      unfolding tsub_def using c2 by (rule tmap2_Inr)
    have m: "0 < m" using combined_shape_pos[OF c1'] .
    have el: "fsub (elt2 (tabs ?d) i j) (elt2 ?e i j)
        = fsub (fabs (fsub (elt2 p i j) (fmul (Fin (1/2)) (fadd (elt2 lo i j) (elt2 up i j)))))
               (fmul (fsub (elt2 up i j) (elt2 lo i j)) (Fin (1/2)))"
      if ij: "i < m" "j < n" for i j
    proof -
      have 1: "elt2 (tabs ?d) i j = fabs (elt2 ?d i j)"
        unfolding tabs_def by (rule elt2_map_map[where m=m and n=n]) (simp_all only: sd fits_refl ij)
      have 2: "elt2 ?d i j = fsub (elt2 p i j) (elt2 ?c i j)"
        using d[unfolded tsub_def] _ ij by (rule elt2_tmap2_fits[where m=m and n=n]) (simp only: sd fits_refl)
      have 3: "elt2 ?c i j = fmul (Fin (1/2)) (elt2 ?S i j)"
        unfolding smul_l_def by (rule elt2_map_map[where m=m and n=n]) (simp_all only: sS f0 ij)
      have 4: "elt2 ?S i j = fadd (elt2 lo i j) (elt2 up i j)"
        using S[unfolded tadd_def] _ ij by (rule elt2_tmap2_fits[where m=m and n=n]) (simp only: sS f0)
      have 5: "elt2 ?e i j = fmul (elt2 ?E i j) (Fin (1/2))"
        unfolding smul_r_def by (rule elt2_map_map[where m=m and n=n]) (simp_all only: sE f0 ij)
      have 6: "elt2 ?E i j = fsub (elt2 up i j) (elt2 lo i j)"
        using E[unfolded tsub_def] _ ij by (rule elt2_tmap2_fits[where m=m and n=n]) (simp only: sE f0)
      show ?thesis by (simp only: 1 2 3 4 5 6)
    qed
    show ?thesis
    proof (cases "n = 0")
      case True
      have "tshape (map (\<lambda>i. map (\<lambda>j. fsub (elt2 (tabs ?d) i j) (elt2 ?e i j)) [0..<n]) [0..<m])
          = Some (m, n)" using m by (rule tshape_map_upt)
      then have "math_max (map (\<lambda>i. map (\<lambda>j. fsub (elt2 (tabs ?d) i j) (elt2 ?e i j)) [0..<n]) [0..<m])
          = Inl ValueError" using True by (simp add: math_max_def)
      then have "approximate_signed_distance b p = Inl ValueError"
        by (simp add: approximate_signed_distance_def lo up S E d dist)
      with True c1 show ?thesis by simp
    next
      case False
      then have n: "0 < n" by simp
      have "approximate_signed_distance b p
          = Inr (map (\<lambda>i. foldl fmax (fsub (elt2 (tabs ?d) i 0) (elt2 ?e i 0))
                   (map (\<lambda>j. fsub (elt2 (tabs ?d) i j) (elt2 ?e i j)) [Suc 0..<n])) [0..<m])"
        by (simp add: approximate_signed_distance_def lo up S E d dist math_max_map[OF m n])
      also have "map (\<lambda>i. foldl fmax (fsub (elt2 (tabs ?d) i 0) (elt2 ?e i 0))
                   (map (\<lambda>j. fsub (elt2 (tabs ?d) i j) (elt2 ?e i j)) [Suc 0..<n])) [0..<m]
          = map (\<lambda>i. foldl fmax
                 (fsub (fabs (fsub (elt2 p i 0) (fmul (Fin (1/2)) (fadd (elt2 lo i 0) (elt2 up i 0)))))
                       (fmul (fsub (elt2 up i 0) (elt2 lo i 0)) (Fin (1/2))))
                 (map (\<lambda>j. fsub (fabs (fsub (elt2 p i j) (fmul (Fin (1/2)) (fadd (elt2 lo i j) (elt2 up i j)))))
                               (fmul (fsub (elt2 up i j) (elt2 lo i j)) (Fin (1/2))))
                      [Suc 0..<n])) [0..<m]"
      proof (rule map_cong[OF refl])
        fix i assume "i \<in> set [0..<m]"
        then have i: "i < m" by simp
        have "map (\<lambda>j. fsub (elt2 (tabs ?d) i j) (elt2 ?e i j)) [Suc 0..<n]
            = map (\<lambda>j. fsub (fabs (fsub (elt2 p i j) (fmul (Fin (1/2)) (fadd (elt2 lo i j) (elt2 up i j)))))
                               (fmul (fsub (elt2 up i j) (elt2 lo i j)) (Fin (1/2)))) [Suc 0..<n]"
          by (rule map_cong[OF refl]) (simp add: el[OF i])
        then show "foldl fmax (fsub (elt2 (tabs ?d) i 0) (elt2 ?e i 0))
                   (map (\<lambda>j. fsub (elt2 (tabs ?d) i j) (elt2 ?e i j)) [Suc 0..<n])
           = foldl fmax
                 (fsub (fabs (fsub (elt2 p i 0) (fmul (Fin (1/2)) (fadd (elt2 lo i 0) (elt2 up i 0)))))
                       (fmul (fsub (elt2 up i 0) (elt2 lo i 0)) (Fin (1/2))))
                 (map (\<lambda>j. fsub (fabs (fsub (elt2 p i j) (fmul (Fin (1/2)) (fadd (elt2 lo i j) (elt2 up i j)))))
                               (fmul (fsub (elt2 up i j) (elt2 lo i j)) (Fin (1/2))))
                      [Suc 0..<n])"
          by (simp only: el[OF i n])
      qed
      finally show ?thesis using False c1 by simp
    qed
  qed
qed

lemma set_upt_image: "0 < n \<Longrightarrow> set (g 0 # map g [Suc 0..<n]) = g ` {..<n}"
proof -
  assume "0 < n"
  then have "[0..<n] = 0 # [Suc 0..<n]" by (simp add: upt_conv_Cons)
  then have "set (g 0 # map g [Suc 0..<n]) = set (map g [0..<n])" by simp
  also have "\<dots> = g ` {..<n}" by (simp add: atLeast0LessThan)
  finally show ?thesis .
qed

lemma dist_interior:
  fixes x l u :: real
  assumes "l < x" "x < u"
  shows "\<bar>x - (l + u) / 2\<bar> - (u - l) / 2 < 0"
  using assms by (simp add: abs_if field_simps)

lemma dist_exterior:
  fixes x l u :: real
  assumes "x < l \<or> u < x"
  shows "0 < \<bar>x - (l + u) / 2\<bar> - (u - l) / 2"
  using assms by (auto simp: abs_if field_simps)

lemma dist_inside:
  fixes x l u :: real
  assumes "l \<le> x" "x \<le> u"
  shows "\<bar>x - (l + u) / 2\<bar> - (u - l) / 2 \<le> 0"
  using assms by (simp add: abs_if field_simps)

lemma dist_face:
  fixes x l u :: real
  assumes "l \<le> x" "x \<le> u" "x = l \<or> x = u"
  shows "\<bar>x - (l + u) / 2\<bar> - (u - l) / 2 = 0"
  using assms by (auto simp: abs_if field_simps)

lemma asd_sign:
  assumes lo: "lower b = Inr lo" and up: "upper b = Inr up"
    and fin: "tfinite lo" "tfinite up" "tfinite p"
    and sh: "bshape (tshape p) (combined_shape lo up) = Some (m, n)" and n: "0 < n"
  shows "\<exists>ds. approximate_signed_distance b p = Inr ds \<and> length ds = m \<and>
    (\<forall>i<m. \<exists>x. ds ! i = Fin x
       \<and> x = Max ((\<lambda>j. \<bar>val (elt2 p i j) - (val (elt2 lo i j) + val (elt2 up i j)) / 2\<bar>
                        - (val (elt2 up i j) - val (elt2 lo i j)) / 2) ` {..<n})
       \<and> ((\<forall>j<n. val (elt2 lo i j) < val (elt2 p i j) \<and> val (elt2 p i j) < val (elt2 up i j))
            \<longrightarrow> x < 0)
       \<and> ((\<exists>j<n. val (elt2 p i j) < val (elt2 lo i j) \<or> val (elt2 up i j) < val (elt2 p i j))
            \<longrightarrow> 0 < x)
       \<and> ((\<forall>j<n. val (elt2 lo i j) \<le> val (elt2 p i j) \<and> val (elt2 p i j) \<le> val (elt2 up i j))
            \<and> (\<exists>j<n. val (elt2 p i j) = val (elt2 lo i j) \<or> val (elt2 p i j) = val (elt2 up i j))
            \<longrightarrow> x = 0))"
proof -
  let ?D = "\<lambda>i j. fsub (fabs (fsub (elt2 p i j) (fmul (Fin (1/2)) (fadd (elt2 lo i j) (elt2 up i j)))))
                       (fmul (fsub (elt2 up i j) (elt2 lo i j)) (Fin (1/2)))"
  let ?g = "\<lambda>i j. \<bar>val (elt2 p i j) - (val (elt2 lo i j) + val (elt2 up i j)) / 2\<bar>
                        - (val (elt2 up i j) - val (elt2 lo i j)) / 2"
  let ?ds = "map (\<lambda>i. foldl fmax (?D i 0) (map (?D i) [Suc 0..<n])) [0..<m]"
  have asd: "approximate_signed_distance b p = Inr ?ds"
    using n by (simp add: asd_formula[OF lo up] sh)
  from sh obtain s0 where c0: "combined_shape lo up = Some s0"
    by (cases "combined_shape lo up") (auto simp: bshape_None_right)
  have f0: "fits (m, n) (Some s0)" and fp: "fits (m, n) (tshape p)"
    using fits_bshape[OF sh[unfolded c0] fits_refl] by auto
  have flo: "fits (m, n) (tshape lo)" and fup: "fits (m, n) (tshape up)"
    using fits_bshape[OF c0[unfolded combined_shape_def] f0] by auto
  have D: "?D i j = Fin (?g i j)" if ij: "i < m" "j < n" for i j
    by (rule dist_value)
       (rule elt2_finite[OF fin(3) fp ij] elt2_finite[OF fin(1) flo ij] elt2_finite[OF fin(2) fup ij])+
  have row: "foldl fmax (?D i 0) (map (?D i) [Suc 0..<n]) = Fin (Max (?g i ` {..<n}))"
    if i: "i < m" for i
  proof -
    have "map (?D i) [Suc 0..<n] = map Fin (map (?g i) [Suc 0..<n])"
      by (simp add: D[OF i])
    then have "foldl fmax (?D i 0) (map (?D i) [Suc 0..<n])
        = foldl fmax (Fin (?g i 0)) (map Fin (map (?g i) [Suc 0..<n]))"
      by (simp only: D[OF i n])
    also have "\<dots> = Fin (Max (set (?g i 0 # map (?g i) [Suc 0..<n])))"
      by (rule foldl_fmax_Fin)
    also have "set (?g i 0 # map (?g i) [Suc 0..<n]) = ?g i ` {..<n}"
      using n by (rule set_upt_image)
    finally show ?thesis .
  qed
  have sign: "((\<forall>j<n. val (elt2 lo i j) < val (elt2 p i j) \<and> val (elt2 p i j) < val (elt2 up i j))
            \<longrightarrow> Max (?g i ` {..<n}) < 0)
       \<and> ((\<exists>j<n. val (elt2 p i j) < val (elt2 lo i j) \<or> val (elt2 up i j) < val (elt2 p i j))
            \<longrightarrow> 0 < Max (?g i ` {..<n}))
       \<and> ((\<forall>j<n. val (elt2 lo i j) \<le> val (elt2 p i j) \<and> val (elt2 p i j) \<le> val (elt2 up i j))
            \<and> (\<exists>j<n. val (elt2 p i j) = val (elt2 lo i j) \<or> val (elt2 p i j) = val (elt2 up i j))
            \<longrightarrow> Max (?g i ` {..<n}) = 0)" for i
  proof -
    have fin: "finite (?g i ` {..<n})" and ne: "?g i ` {..<n} \<noteq> {}" using n by auto
    have 1: "Max (?g i ` {..<n}) < 0"
      if "\<forall>j<n. val (elt2 lo i j) < val (elt2 p i j) \<and> val (elt2 p i j) < val (elt2 up i j)"
    proof -
      have "a < 0" if "a \<in> ?g i ` {..<n}" for a
      proof -
        from that obtain j where j: "j < n" and a: "a = ?g i j" by auto
        from \<open>\<forall>j<n. val (elt2 lo i j) < val (elt2 p i j) \<and> val (elt2 p i j) < val (elt2 up i j)\<close> j
        have "val (elt2 lo i j) < val (elt2 p i j)" "val (elt2 p i j) < val (elt2 up i j)" by auto
        then show ?thesis unfolding a by (rule dist_interior)
      qed
      then show ?thesis unfolding Max_less_iff[OF fin ne] by blast
    qed
    have 2: "0 < Max (?g i ` {..<n})"
      if "\<exists>j<n. val (elt2 p i j) < val (elt2 lo i j) \<or> val (elt2 up i j) < val (elt2 p i j)"
    proof -
      from that obtain j where j: "j < n"
        "val (elt2 p i j) < val (elt2 lo i j) \<or> val (elt2 up i j) < val (elt2 p i j)" by blast
      have "0 < ?g i j" using j(2) by (rule dist_exterior)
      also have "?g i j \<le> Max (?g i ` {..<n})" using fin j(1) by (intro Max_ge) auto
      finally show ?thesis .
    qed
    have 3: "Max (?g i ` {..<n}) = 0"
      if a: "\<forall>j<n. val (elt2 lo i j) \<le> val (elt2 p i j) \<and> val (elt2 p i j) \<le> val (elt2 up i j)"
      and e: "\<exists>j<n. val (elt2 p i j) = val (elt2 lo i j) \<or> val (elt2 p i j) = val (elt2 up i j)"
    proof (rule antisym)
      have "x \<le> 0" if "x \<in> ?g i ` {..<n}" for x
      proof -
        from that obtain j where j: "j < n" and x: "x = ?g i j" by auto
        from a j
        have "val (elt2 lo i j) \<le> val (elt2 p i j)" "val (elt2 p i j) \<le> val (elt2 up i j)" by auto
        then show ?thesis unfolding x by (rule dist_inside)
      qed
      then show "Max (?g i ` {..<n}) \<le> 0" unfolding Max_le_iff[OF fin ne] by blast
      from e obtain j where j: "j < n"
        "val (elt2 p i j) = val (elt2 lo i j) \<or> val (elt2 p i j) = val (elt2 up i j)" by blast
      from a j(1)
      have "val (elt2 lo i j) \<le> val (elt2 p i j)" "val (elt2 p i j) \<le> val (elt2 up i j)" by auto
      then have "0 = ?g i j" using j(2) by (rule dist_face[symmetric])
      also have "?g i j \<le> Max (?g i ` {..<n})" using fin j(1) by (intro Max_ge) auto
      finally show "0 \<le> Max (?g i ` {..<n})" .
    qed
    from 1 2 3 show ?thesis by blast
  qed
  have "\<forall>i<m. \<exists>x. ?ds ! i = Fin x \<and> x = Max (?g i ` {..<n})
       \<and> ((\<forall>j<n. val (elt2 lo i j) < val (elt2 p i j) \<and> val (elt2 p i j) < val (elt2 up i j))
            \<longrightarrow> x < 0)
       \<and> ((\<exists>j<n. val (elt2 p i j) < val (elt2 lo i j) \<or> val (elt2 up i j) < val (elt2 p i j))
            \<longrightarrow> 0 < x)
       \<and> ((\<forall>j<n. val (elt2 lo i j) \<le> val (elt2 p i j) \<and> val (elt2 p i j) \<le> val (elt2 up i j))
            \<and> (\<exists>j<n. val (elt2 p i j) = val (elt2 lo i j) \<or> val (elt2 p i j) = val (elt2 up i j))
            \<longrightarrow> x = 0)"
  proof (intro allI impI)
    fix i assume i: "i < m"
    have "?ds ! i = Fin (Max (?g i ` {..<n}))" using i row[OF i] by simp
    with sign[of i] show "\<exists>x. ?ds ! i = Fin x \<and> x = Max (?g i ` {..<n})
       \<and> ((\<forall>j<n. val (elt2 lo i j) < val (elt2 p i j) \<and> val (elt2 p i j) < val (elt2 up i j))
            \<longrightarrow> x < 0)
       \<and> ((\<exists>j<n. val (elt2 p i j) < val (elt2 lo i j) \<or> val (elt2 up i j) < val (elt2 p i j))
            \<longrightarrow> 0 < x)
       \<and> ((\<forall>j<n. val (elt2 lo i j) \<le> val (elt2 p i j) \<and> val (elt2 p i j) \<le> val (elt2 up i j))
            \<and> (\<exists>j<n. val (elt2 p i j) = val (elt2 lo i j) \<or> val (elt2 p i j) = val (elt2 up i j))
            \<longrightarrow> x = 0)" by blast
  qed
  moreover have "length ?ds = m" by simp
  ultimately show ?thesis using asd by blast
qed

lemma fmax_cases:
  assumes "a \<noteq> NaN" "b \<noteq> NaN"
  shows "(fmax a b = a \<or> fmax a b = b) \<and> fle a (fmax a b) \<and> fle b (fmax a b)"
  using assms fle_total[OF assms] fle_refl by (auto simp: fmax_def)

text \<open>The maximum of a row without NaN is an element of the row and no element exceeds it.\<close>

lemma foldl_fmax_greatest:
  assumes "x \<noteq> NaN" "\<forall>y \<in> set xs. y \<noteq> NaN"
  shows "foldl fmax x xs \<in> set (x # xs) \<and> (\<forall>y \<in> set (x # xs). fle y (foldl fmax x xs))"
  using assms
proof (induction xs arbitrary: x)
  case Nil
  then show ?case by (simp add: fle_refl)
next
  case (Cons y ys)
  from Cons.prems have y: "y \<noteq> NaN" and ys: "\<forall>z \<in> set ys. z \<noteq> NaN" by simp_all
  note fm = fmax_cases[OF Cons.prems(1) y]
  then have nn: "fmax x y \<noteq> NaN" using Cons.prems(1) y by auto
  from Cons.IH[OF nn ys]
  have mem: "foldl fmax (fmax x y) ys \<in> set (fmax x y # ys)"
    and ge: "\<forall>z \<in> set (fmax x y # ys). fle z (foldl fmax (fmax x y) ys)" by simp_all
  from ge have g0: "fle (fmax x y) (foldl fmax (fmax x y) ys)" by simp
  have "fle x (foldl fmax (fmax x y) ys)" "fle y (foldl fmax (fmax x y) ys)"
    using fm g0 fle_trans by blast+
  moreover have "foldl fmax (fmax x y) ys \<in> set (x # y # ys)" using mem fm by auto
  ultimately show ?case using ge by simp
qed

text \<open>One component of the distance, for finite corners.\<close>

lemma comp_no_nan:
  assumes "is_Fin l" "is_Fin u" "x \<noteq> NaN"
  shows "fsub (fabs (fsub x (fmul (Fin (1/2)) (fadd l u)))) (fmul (fsub u l) (Fin (1/2))) \<noteq> NaN"
  using assms by (cases x; cases l; cases u) (simp_all add: fsub_def)

lemma comp_interior:
  assumes "is_Fin l" "is_Fin u" "flt l x" "flt x u"
  shows "flt (fsub (fabs (fsub x (fmul (Fin (1/2)) (fadd l u)))) (fmul (fsub u l) (Fin (1/2))))
             (Fin 0)"
  using assms
  by (cases x; cases l; cases u) (auto simp: fsub_def flt_def abs_if field_simps)

lemma comp_exterior:
  assumes "is_Fin l" "is_Fin u" "flt x l \<or> flt u x"
  shows "flt (Fin 0)
             (fsub (fabs (fsub x (fmul (Fin (1/2)) (fadd l u)))) (fmul (fsub u l) (Fin (1/2))))"
  using assms
  by (cases x; cases l; cases u) (auto simp: fsub_def flt_def abs_if field_simps)

lemma comp_inside:
  assumes "is_Fin l" "is_Fin u" "fle l x" "fle x u"
  shows "fle (fsub (fabs (fsub x (fmul (Fin (1/2)) (fadd l u)))) (fmul (fsub u l) (Fin (1/2))))
             (Fin 0)"
  using assms
  by (cases x; cases l; cases u) (auto simp: fsub_def abs_if field_simps)

lemma comp_face:
  assumes "is_Fin l" "is_Fin u" "fle l x" "fle x u" "x = l \<or> x = u"
  shows "fsub (fabs (fsub x (fmul (Fin (1/2)) (fadd l u)))) (fmul (fsub u l) (Fin (1/2))) = Fin 0"
  using assms
  by (cases x; cases l; cases u) (auto simp: fsub_def abs_if field_simps)

lemma asd_sign_fl:
  assumes lo: "lower b = Inr lo" and up: "upper b = Inr up"
    and fin: "tfinite lo" "tfinite up" and nn: "tno_nan p"
    and sh: "bshape (tshape p) (combined_shape lo up) = Some (m, n)" and n: "0 < n"
  shows "\<exists>ds. approximate_signed_distance b p = Inr ds \<and> length ds = m \<and>
    (\<forall>i<m.
         ((\<forall>j<n. flt (elt2 lo i j) (elt2 p i j) \<and> flt (elt2 p i j) (elt2 up i j))
            \<longrightarrow> flt (ds ! i) (Fin 0))
       \<and> ((\<exists>j<n. flt (elt2 p i j) (elt2 lo i j) \<or> flt (elt2 up i j) (elt2 p i j))
            \<longrightarrow> flt (Fin 0) (ds ! i))
       \<and> ((\<forall>j<n. fle (elt2 lo i j) (elt2 p i j) \<and> fle (elt2 p i j) (elt2 up i j))
            \<and> (\<exists>j<n. elt2 p i j = elt2 lo i j \<or> elt2 p i j = elt2 up i j)
            \<longrightarrow> ds ! i = Fin 0))"
proof -
  let ?D = "\<lambda>i j. fsub (fabs (fsub (elt2 p i j) (fmul (Fin (1/2)) (fadd (elt2 lo i j) (elt2 up i j)))))
                       (fmul (fsub (elt2 up i j) (elt2 lo i j)) (Fin (1/2)))"
  let ?r = "\<lambda>i. foldl fmax (?D i 0) (map (?D i) [Suc 0..<n])"
  let ?ds = "map ?r [0..<m]"
  have asd: "approximate_signed_distance b p = Inr ?ds"
    using n by (simp add: asd_formula[OF lo up] sh)
  from sh obtain s0 where c0: "combined_shape lo up = Some s0"
    by (cases "combined_shape lo up") (auto simp: bshape_None_right)
  have f0: "fits (m, n) (Some s0)" and fp: "fits (m, n) (tshape p)"
    using fits_bshape[OF sh[unfolded c0] fits_refl] by auto
  have flo: "fits (m, n) (tshape lo)" and fup: "fits (m, n) (tshape up)"
    using fits_bshape[OF c0[unfolded combined_shape_def] f0] by auto
  have L: "is_Fin (elt2 lo i j)" and U: "is_Fin (elt2 up i j)" and P: "elt2 p i j \<noteq> NaN"
    if "i < m" "j < n" for i j
    using elt2_finite[OF fin(1) flo that] elt2_finite[OF fin(2) fup that]
      elt2_no_nan[OF nn fp that] by simp_all
  have row: "?r i \<in> ?D i ` {..<n} \<and> (\<forall>y \<in> ?D i ` {..<n}. fle y (?r i))" if i: "i < m" for i
  proof -
    have "?D i 0 \<noteq> NaN" using L[OF i n] U[OF i n] P[OF i n] by (rule comp_no_nan)
    moreover have "\<forall>y \<in> set (map (?D i) [Suc 0..<n]). y \<noteq> NaN"
    proof
      fix y assume "y \<in> set (map (?D i) [Suc 0..<n])"
      then obtain j where j: "j < n" and y: "y = ?D i j" by auto
      show "y \<noteq> NaN" unfolding y using L[OF i j] U[OF i j] P[OF i j] by (rule comp_no_nan)
    qed
    ultimately have "?r i \<in> set (?D i 0 # map (?D i) [Suc 0..<n])
        \<and> (\<forall>y \<in> set (?D i 0 # map (?D i) [Suc 0..<n]). fle y (?r i))"
      by (rule foldl_fmax_greatest)
    then show ?thesis unfolding set_upt_image[OF n, of "?D i"] .
  qed
  have sign: "((\<forall>j<n. flt (elt2 lo i j) (elt2 p i j) \<and> flt (elt2 p i j) (elt2 up i j))
            \<longrightarrow> flt (?r i) (Fin 0))
       \<and> ((\<exists>j<n. flt (elt2 p i j) (elt2 lo i j) \<or> flt (elt2 up i j) (elt2 p i j))
            \<longrightarrow> flt (Fin 0) (?r i))
       \<and> ((\<forall>j<n. fle (elt2 lo i j) (elt2 p i j) \<and> fle (elt2 p i j) (elt2 up i j))
            \<and> (\<exists>j<n. elt2 p i j = elt2 lo i j \<or> elt2 p i j = elt2 up i j)
            \<longrightarrow> ?r i = Fin 0)" if i: "i < m" for i
  proof -
    from row[OF i] obtain k where k: "k < n" and rk: "?r i = ?D i k"
      and ge: "\<And>j. j < n \<Longrightarrow> fle (?D i j) (?r i)" by auto
    have 1: "flt (?r i) (Fin 0)"
      if a: "\<forall>j<n. flt (elt2 lo i j) (elt2 p i j) \<and> flt (elt2 p i j) (elt2 up i j)"
    proof -
      from a k have "flt (elt2 lo i k) (elt2 p i k)" "flt (elt2 p i k) (elt2 up i k)" by auto
      with L[OF i k] U[OF i k] show ?thesis unfolding rk by (rule comp_interior)
    qed
    have 2: "flt (Fin 0) (?r i)"
      if e: "\<exists>j<n. flt (elt2 p i j) (elt2 lo i j) \<or> flt (elt2 up i j) (elt2 p i j)"
    proof -
      from e obtain j where j: "j < n"
        "flt (elt2 p i j) (elt2 lo i j) \<or> flt (elt2 up i j) (elt2 p i j)" by blast
      have "flt (Fin 0) (?D i j)" using L[OF i j(1)] U[OF i j(1)] j(2) by (rule comp_exterior)
      then show ?thesis using ge[OF j(1)] by (rule flt_fle_trans)
    qed
    have 3: "?r i = Fin 0"
      if a: "\<forall>j<n. fle (elt2 lo i j) (elt2 p i j) \<and> fle (elt2 p i j) (elt2 up i j)"
      and e: "\<exists>j<n. elt2 p i j = elt2 lo i j \<or> elt2 p i j = elt2 up i j"
    proof (rule fle_antisym)
      from a k have "fle (elt2 lo i k) (elt2 p i k)" "fle (elt2 p i k) (elt2 up i k)" by auto
      with L[OF i k] U[OF i k] show "fle (?r i) (Fin 0)" unfolding rk by (rule comp_inside)
      from e obtain j where j: "j < n"
        "elt2 p i j = elt2 lo i j \<or> elt2 p i j = elt2 up i j" by blast
      from a j(1) have "fle (elt2 lo i j) (elt2 p i j)" "fle (elt2 p i j) (elt2 up i j)" by auto
      with L[OF i j(1)] U[OF i j(1)] have "?D i j = Fin 0" using j(2) by (rule comp_face)
      with ge[OF j(1)] show "fle (Fin 0) (?r i)" by simp
    qed
    from 1 2 3 show ?thesis by blast
  qed
  have "\<forall>i<m.
         ((\<forall>j<n. flt (elt2 lo i j) (elt2 p i j) \<and> flt (elt2 p i j) (elt2 up i j))
            \<longrightarrow> flt (?ds ! i) (Fin 0))
       \<and> ((\<exists>j<n. flt (elt2 p i j) (elt2 lo i j) \<or> flt (elt2 up i j) (elt2 p i j))
            \<longrightarrow> flt (Fin 0) (?ds ! i))
       \<and> ((\<forall>j<n. fle (elt2 lo i j) (elt2 p i j) \<and> fle (elt2 p i j) (elt2 up i j))
            \<and> (\<exists>j<n. elt2 p i j = elt2 lo i j \<or> elt2 p i j = elt2 up i j)
            \<longrightarrow> ?ds ! i = Fin 0)"
  proof (intro allI impI)
    fix i assume i: "i < m"
    then have "?ds ! i = ?r i" by simp
    with sign[OF i] show "((\<forall>j<n. flt (elt2 lo i j) (elt2 p i j) \<and> flt (elt2 p i j) (elt2 up i j))
            \<longrightarrow> flt (?ds ! i) (Fin 0))
       \<and> ((\<exists>j<n. flt (elt2 p i j) (elt2 lo i j) \<or> flt (elt2 up i j) (elt2 p i j))
            \<longrightarrow> flt (Fin 0) (?ds ! i))
       \<and> ((\<forall>j<n. fle (elt2 lo i j) (elt2 p i j) \<and> fle (elt2 p i j) (elt2 up i j))
            \<and> (\<exists>j<n. elt2 p i j = elt2 lo i j \<or> elt2 p i j = elt2 up i j)
            \<longrightarrow> ?ds ! i = Fin 0)" by simp
  qed
  moreover have "length ?ds = m" by simp
  ultimately show ?thesis using asd by blast
qed

text \<open>
  Claim C6, as the code has it. \<^verbatim>\<open>approximate_signed_distance(p)\<close> is the maximum over
  the vector dimension of \<open>|p - (lower + upper) / 2| - (upper - lower) / 2\<close>, one value
  per batch element (NaN where a component is NaN, an error when the tensors do not
  broadcast or the vector dimension is empty). In real arithmetic, that is with the
  rounding and overflow of finite doubles left out, for every box with finite corners
  and every location without NaN it is strictly negative at a point strictly inside the
  box, strictly positive at a point outside the closed box (\<open>+inf\<close> at a point with an
  infinite coordinate), and zero at a point of the closed box that lies on a face; for
  a finite location it is the maximum of the real numbers that the formula gives.
\<close>

theorem signed_distance_sign:
  assumes lo: "lower b = Inr lo" and up: "upper b = Inr up"
  shows "(approximate_signed_distance b p =
     (case bshape (tshape p) (combined_shape lo up) of
        None \<Rightarrow> Inl ShapeError
      | Some (m, n) \<Rightarrow>
          if n = 0 then Inl ValueError
          else Inr (map (\<lambda>i. foldl fmax
                 (fsub (fabs (fsub (elt2 p i 0) (fmul (Fin (1/2)) (fadd (elt2 lo i 0) (elt2 up i 0)))))
                       (fmul (fsub (elt2 up i 0) (elt2 lo i 0)) (Fin (1/2))))
                 (map (\<lambda>j. fsub (fabs (fsub (elt2 p i j) (fmul (Fin (1/2)) (fadd (elt2 lo i j) (elt2 up i j)))))
                               (fmul (fsub (elt2 up i j) (elt2 lo i j)) (Fin (1/2))))
                      [Suc 0..<n])) [0..<m])))
   \<and> (tfinite lo \<and> tfinite up \<and> tno_nan p
        \<and> bshape (tshape p) (combined_shape lo up) = Some (m, n) \<and> 0 < n \<longrightarrow>
      (\<exists>ds. approximate_signed_distance b p = Inr ds \<and> length ds = m \<and>
    (\<forall>i<m.
         ((\<forall>j<n. flt (elt2 lo i j) (elt2 p i j) \<and> flt (elt2 p i j) (elt2 up i j))
            \<longrightarrow> flt (ds ! i) (Fin 0))
       \<and> ((\<exists>j<n. flt (elt2 p i j) (elt2 lo i j) \<or> flt (elt2 up i j) (elt2 p i j))
            \<longrightarrow> flt (Fin 0) (ds ! i))
       \<and> ((\<forall>j<n. fle (elt2 lo i j) (elt2 p i j) \<and> fle (elt2 p i j) (elt2 up i j))
            \<and> (\<exists>j<n. elt2 p i j = elt2 lo i j \<or> elt2 p i j = elt2 up i j)
            \<longrightarrow> ds ! i = Fin 0))))
   \<and> (tfinite lo \<and> tfinite up \<and> tfinite p
        \<and> bshape (tshape p) (combined_shape lo up) = Some (m, n) \<and> 0 < n \<longrightarrow>
      (\<exists>ds. approximate_signed_distance b p = Inr ds \<and> length ds = m \<and>
    (\<forall>i<m. \<exists>x. ds ! i = Fin x
       \<and> x = Max ((\<lambda>j. \<bar>val (elt2 p i j) - (val (elt2 lo i j) + val (elt2 up i j)) / 2\<bar>
                        - (val (elt2 up i j) - val (elt2 lo i j)) / 2) ` {..<n})
       \<and> ((\<forall>j<n. val (elt2 lo i j) < val (elt2 p i j) \<and> val (elt2 p i j) < val (elt2 up i j))
            \<longrightarrow> x < 0)
       \<and> ((\<exists>j<n. val (elt2 p i j) < val (elt2 lo i j) \<or> val (elt2 up i j) < val (elt2 p i j))
            \<longrightarrow> 0 < x)
       \<and> ((\<forall>j<n. val (elt2 lo i j) \<le> val (elt2 p i j) \<and> val (elt2 p i j) \<le> val (elt2 up i j))
            \<and> (\<exists>j<n. val (elt2 p i j) = val (elt2 lo i j) \<or> val (elt2 p i j) = val (elt2 up i j))
            \<longrightarrow> x = 0))))"
  using asd_formula[OF lo up, of p] asd_sign_fl[OF lo up, of p m n] asd_sign[OF lo up, of p m n]
  by blast

text \<open>
  \<^verbatim>\<open>Box((0,0),(10,20))\<close> and four locations: the center, a point outside, a point on a
  face and a point with an infinite coordinate.
\<close>

theorem signed_distance_sign_witness:
  "tfinite [[Fin 0, Fin 0]] \<and> tfinite [[Fin 10, Fin 20]]
   \<and> tno_nan [[Fin 5, Fin 10], [Fin 15, Fin 10], [Fin 10, Fin 3], [PInf, Fin 10]]
   \<and> bshape (tshape [[Fin 5, Fin 10], [Fin 15, Fin 10], [Fin 10, Fin 3], [PInf, Fin 10]])
         (combined_shape [[Fin 0, Fin 0]] [[Fin 10, Fin 20]]) = Some (4, 2)
   \<and> approximate_signed_distance (Box [[Fin 0, Fin 0]] [[Fin 10, Fin 20]] [1, 2])
         [[Fin 5, Fin 10], [Fin 15, Fin 10], [Fin 10, Fin 3], [PInf, Fin 10]]
       = Inr [Fin (- 5), Fin 5, Fin 0, PInf]"
proof -
  let ?lo = "[[Fin 0, Fin 0]]" and ?up = "[[Fin 10, Fin 20]]"
  let ?b = "Box ?lo ?up [1, 2]"
  let ?p = "[[Fin 5, Fin 10], [Fin 15, Fin 10], [Fin 10, Fin 3], [PInf, Fin 10]]"
  have lo: "lower ?b = Inr ?lo" and up: "upper ?b = Inr ?up" by simp_all
  have h: "tfinite ?lo" "tfinite ?up" "tno_nan ?p"
    "bshape (tshape ?p) (combined_shape ?lo ?up) = Some (4, 2)" by code_simp+
  have "approximate_signed_distance ?b ?p = Inr [Fin (- 5), Fin 5, Fin 0, PInf]"
    unfolding conjunct1[OF signed_distance_sign[OF lo up, of ?p 4 2]] by code_simp
  with h show ?thesis by simp
qed

text \<open>
  The claim as the spec states it fails on a box with an infinite corner: in
  \<^verbatim>\<open>Box[:5]\<close> the lower corner is below the upper one and the point 0 lies strictly
  between them, and the distance is NaN, which is not negative.
\<close>

theorem signed_distance_sign_counterexample:
  "lower (Box [[NInf]] [[Fin 5]] [1, 1]) = Inr [[NInf]]
   \<and> upper (Box [[NInf]] [[Fin 5]] [1, 1]) = Inr [[Fin 5]]
   \<and> flt NInf (Fin 5) \<and> flt NInf (Fin 0) \<and> flt (Fin 0) (Fin 5)
   \<and> approximate_signed_distance (Box [[NInf]] [[Fin 5]] [1, 1]) [[Fin 0]] = Inr [NaN]
   \<and> \<not> flt NaN (Fin 0)"
  by code_simp

section \<open>Boxes from slices\<close>

lemma getitem_loop_accepts:
  assumes "\<forall>(a, b, st) \<in> set sl. st = None \<or> st = Some (Fin 1)"
  shows "getitem_loop (map (\<lambda>(a, b, st). Slice a b st) sl) lo up
       = Inr (lo @ map (\<lambda>(a, b, st). case a of None \<Rightarrow> NInf | Some v \<Rightarrow> v) sl,
              up @ map (\<lambda>(a, b, st). case b of None \<Rightarrow> PInf | Some v \<Rightarrow> v) sl)"
  using assms
proof (induction sl arbitrary: lo up)
  case Nil
  show ?case by simp
next
  case (Cons x sl)
  obtain a b st where x: "x = (a, b, st)" by (cases x)
  from Cons.prems have st: "st = None \<or> st = Some (Fin 1)"
    and rest: "\<forall>(a, b, st) \<in> set sl. st = None \<or> st = Some (Fin 1)" by (auto simp: x)
  show ?case using st by (auto simp: x Cons.IH[OF rest] split: option.splits)
qed

lemma getitem_loop_rejects:
  assumes "\<exists>(a, b, st) \<in> set sl. st \<noteq> None \<and> st \<noteq> Some (Fin 1)"
  shows "getitem_loop (map (\<lambda>(a, b, st). Slice a b st) sl) lo up = Inl AssertionError"
  using assms
proof (induction sl arbitrary: lo up)
  case Nil
  then show ?case by simp
next
  case (Cons x sl)
  obtain a b st where x: "x = (a, b, st)" by (cases x)
  show ?case
  proof (cases "st = None \<or> st = Some (Fin 1)")
    case True
    with Cons.prems have "\<exists>(a, b, st) \<in> set sl. st \<noteq> None \<and> st \<noteq> Some (Fin 1)"
      by (auto simp: x)
    from Cons.IH[OF this] True show ?thesis by (auto simp: x)
  next
    case False
    then show ?thesis by (simp add: x)
  qed
qed

lemma Box_init_rows:
  assumes "length xs = length ys"
  shows "Box_init [xs] [ys] = Inr (Box [xs] [ys] [1, length xs])"
  using assms by (simp add: Box_init_def combined_shape_def bshape_def tshape_def bdim_def)

lemma half_line_inside:
  "lies_inside (Box [[NInf]] [[Fin 5]] [1, 1]) [[x]] = Inr [fle x (Fin 5)]"
  by (cases x)
     (simp_all add: lies_inside_def tge_def tle_def tand_def tmap2_def combined_shape_def
        bshape_def tshape_def bdim_def elt2_def elt_def math_all_def fge_def)

text \<open>
  Claim C7. In the construction \<^verbatim>\<open>Box[...]\<close>, for every sequence of slices whose steps
  are unset or 1 the result is the box whose lower corner holds the starts, with
  \<open>-inf\<close> for an absent start, and whose upper corner holds the stops, with \<open>+inf\<close> for an
  absent stop; a sequence with a slice whose step is neither unset nor 1 is rejected
  with an \<^verbatim>\<open>AssertionError\<close>; a single slice is treated as the sequence of that slice.
  The box \<^verbatim>\<open>Box[:5]\<close> contains every point whose coordinate is at most 5.
\<close>

theorem getitem_slices:
  "((\<forall>(a, b, st) \<in> set sl. st = None \<or> st = Some (Fin 1)) \<longrightarrow>
      getitem (Many (map (\<lambda>(a, b, st). Slice a b st) sl)) =
        Inr (Box [map (\<lambda>(a, b, st). case a of None \<Rightarrow> NInf | Some v \<Rightarrow> v) sl]
                 [map (\<lambda>(a, b, st). case b of None \<Rightarrow> PInf | Some v \<Rightarrow> v) sl]
                 [1, length sl]))
   \<and> ((\<exists>(a, b, st) \<in> set sl. st \<noteq> None \<and> st \<noteq> Some (Fin 1)) \<longrightarrow>
      getitem (Many (map (\<lambda>(a, b, st). Slice a b st) sl)) = Inl AssertionError)
   \<and> getitem (One i) = getitem (Many [i])
   \<and> getitem (One (Slice None (Some (Fin 5)) None)) = Inr (Box [[NInf]] [[Fin 5]] [1, 1])
   \<and> (\<forall>x. fle x (Fin 5) \<longrightarrow> lies_inside (Box [[NInf]] [[Fin 5]] [1, 1]) [[x]] = Inr [True])"
proof (intro conjI impI allI)
  assume "\<forall>(a, b, st) \<in> set sl. st = None \<or> st = Some (Fin 1)"
  from getitem_loop_accepts[OF this, of "[]" "[]"]
  show "getitem (Many (map (\<lambda>(a, b, st). Slice a b st) sl)) =
        Inr (Box [map (\<lambda>(a, b, st). case a of None \<Rightarrow> NInf | Some v \<Rightarrow> v) sl]
                 [map (\<lambda>(a, b, st). case b of None \<Rightarrow> PInf | Some v \<Rightarrow> v) sl]
                 [1, length sl])"
    by (simp add: getitem_def Box_init_rows)
next
  assume "\<exists>(a, b, st) \<in> set sl. st \<noteq> None \<and> st \<noteq> Some (Fin 1)"
  from getitem_loop_rejects[OF this, of "[]" "[]"]
  show "getitem (Many (map (\<lambda>(a, b, st). Slice a b st) sl)) = Inl AssertionError"
    by (simp add: getitem_def)
next
  show "getitem (One i) = getitem (Many [i])" by (simp add: getitem_def)
next
  show "getitem (One (Slice None (Some (Fin 5)) None)) = Inr (Box [[NInf]] [[Fin 5]] [1, 1])"
    by (simp add: getitem_def Box_init_rows)
next
  fix x assume "fle x (Fin 5)"
  then show "lies_inside (Box [[NInf]] [[Fin 5]] [1, 1]) [[x]] = Inr [True]"
    unfolding half_line_inside by simp
qed

theorem getitem_slices_witness:
  "getitem (Many [Slice (Some (Fin 0)) (Some (Fin 10)) None, Slice None (Some (Fin 20)) (Some (Fin 1)),
                  Slice (Some (Fin 3)) None None])
     = Inr (Box [[Fin 0, NInf, Fin 3]] [[Fin 10, Fin 20, PInf]] [1, 3])
   \<and> getitem (Many [Slice (Some (Fin 0)) (Some (Fin 10)) None,
                    Slice (Some (Fin 0)) (Some (Fin 20)) (Some (Fin 2))]) = Inl AssertionError
   \<and> lies_inside (Box [[NInf]] [[Fin 5]] [1, 1]) [[Fin (- 1000000)]] = Inr [True]
   \<and> lies_inside (Box [[NInf]] [[Fin 5]] [1, 1]) [[Fin 5]] = Inr [True]"
proof -
  note t = getitem_slices[where sl = "[(Some (Fin 0), Some (Fin 10), None),
      (None, Some (Fin 20), Some (Fin 1)), (Some (Fin 3), None, None)]" and i = NoSlice]
  note u = getitem_slices[where sl = "[(Some (Fin 0), Some (Fin 10), None),
      (Some (Fin 0), Some (Fin 20), Some (Fin 2))]" and i = NoSlice]
  have 1: "getitem (Many [Slice (Some (Fin 0)) (Some (Fin 10)) None, Slice None (Some (Fin 20)) (Some (Fin 1)),
                  Slice (Some (Fin 3)) None None])
     = Inr (Box [[Fin 0, NInf, Fin 3]] [[Fin 10, Fin 20, PInf]] [1, 3])"
    using conjunct1[OF t] by simp
  have 2: "getitem (Many [Slice (Some (Fin 0)) (Some (Fin 10)) None,
                    Slice (Some (Fin 0)) (Some (Fin 20)) (Some (Fin 2))]) = Inl AssertionError"
    using conjunct1[OF conjunct2[OF u]] by simp
  have f: "fle (Fin (- 1000000)) (Fin 5)" "fle (Fin 5) (Fin 5)" by simp_all
  from t f have 3: "lies_inside (Box [[NInf]] [[Fin 5]] [1, 1]) [[Fin (- 1000000)]] = Inr [True]"
    "lies_inside (Box [[NInf]] [[Fin 5]] [1, 1]) [[Fin 5]] = Inr [True]" by blast+
  from 1 2 3 show ?thesis by simp
qed

section \<open>shifted\<close>

lemma shift_value:
  assumes "is_Fin d"
  shows "fsub (fadd u d) (fadd l d) = fsub u l"
  using assms by (cases d; cases u; cases l) (simp_all add: fsub_def)

lemma Box_init_InrD:
  assumes "Box_init lo up = Inr b"
  obtains m n where "combined_shape lo up = Some (m, n)" "b = Box lo up [m, n]"
  using assms by (auto simp: Box_init_def split: option.splits)

lemma shifted_Box:
  assumes b: "Box_init lo up = Inr b"
    and sh: "bshape (combined_shape lo delta) (combined_shape up delta) = Some sh"
  shows "\<exists>lo' up'. tadd lo delta = Inr lo' \<and> tadd up delta = Inr up'
      \<and> shifted b delta = Box_init lo' up'
      \<and> shifted b delta = Inr (Box lo' up' [fst sh, snd sh])
      \<and> (tfinite delta \<longrightarrow>
           (\<exists>sz. size_b b = Inr sz \<and> size_b (Box lo' up' [fst sh, snd sh]) = Inr (expand sh sz)))"
proof -
  obtain m n where shmn: "sh = (m, n)" by (cases sh)
  from b obtain m0 n0 where c0: "combined_shape lo up = Some (m0, n0)" and bb: "b = Box lo up [m0, n0]"
    by (rule Box_init_InrD)
  from sh obtain s1 s2 where c1: "combined_shape lo delta = Some s1"
    and c2: "combined_shape up delta = Some s2"
    by (cases "combined_shape lo delta"; cases "combined_shape up delta")
       (auto simp: bshape_None_left bshape_None_right)
  obtain a1 b1 where s1: "s1 = (a1, b1)" by (cases s1)
  obtain a2 b2 where s2: "s2 = (a2, b2)" by (cases s2)
  have lo': "tadd lo delta = Inr (map (\<lambda>i. map (\<lambda>j. fadd (elt2 lo i j) (elt2 delta i j)) [0..<b1]) [0..<a1])"
    (is "_ = Inr ?lo") unfolding tadd_def using c1[unfolded s1] by (rule tmap2_Inr)
  have up': "tadd up delta = Inr (map (\<lambda>i. map (\<lambda>j. fadd (elt2 up i j) (elt2 delta i j)) [0..<b2]) [0..<a2])"
    (is "_ = Inr ?up") unfolding tadd_def using c2[unfolded s2] by (rule tmap2_Inr)
  have slo: "tshape ?lo = Some s1" using tmap2_shape[OF lo'[unfolded tadd_def]] c1 by simp
  have sup: "tshape ?up = Some s2" using tmap2_shape[OF up'[unfolded tadd_def]] c2 by simp
  have c3: "combined_shape ?lo ?up = Some (m, n)"
    using sh by (simp add: combined_shape_def[of ?lo ?up] slo sup c1 c2 shmn)
  have sb: "shifted b delta = Inr (Box ?lo ?up [m, n])"
    by (simp add: bb lo' up' Box_init_def c3)
  have size: "\<exists>sz. size_b b = Inr sz \<and> size_b (Box ?lo ?up [m, n]) = Inr (expand (m, n) sz)"
    if fin: "tfinite delta"
  proof -
    have c0': "combined_shape up lo = Some (m0, n0)" by (subst combined_shape_commute) (rule c0)
    have sz: "tsub up lo = Inr (map (\<lambda>i. map (\<lambda>j. fsub (elt2 up i j) (elt2 lo i j)) [0..<n0]) [0..<m0])"
      (is "_ = Inr ?sz") unfolding tsub_def using c0' by (rule tmap2_Inr)
    have ssz: "tshape ?sz = Some (m0, n0)" using tmap2_shape[OF sz[unfolded tsub_def]] c0' by simp
    have c3': "combined_shape ?up ?lo = Some (m, n)" by (subst combined_shape_commute) (rule c3)
    have sz': "tsub ?up ?lo = Inr (map (\<lambda>i. map (\<lambda>j. fsub (elt2 ?up i j) (elt2 ?lo i j)) [0..<n]) [0..<m])"
      unfolding tsub_def using c3' by (rule tmap2_Inr)
    have flo': "fits (m, n) (tshape ?lo)" and fup': "fits (m, n) (tshape ?up)"
      using fits_bshape[OF c3[unfolded combined_shape_def] fits_refl] by auto
    have flo: "fits (m, n) (tshape lo)" and fd: "fits (m, n) (tshape delta)"
      using tmap2_fits[OF lo'[unfolded tadd_def] flo'] by auto
    have fup: "fits (m, n) (tshape up)"
      using tmap2_fits[OF up'[unfolded tadd_def] fup'] by auto
    have fsz: "fits (m, n) (tshape ?sz)" unfolding ssz
      using fup flo c0'[unfolded combined_shape_def] by (rule fits_bshapeI)
    have el: "fsub (elt2 ?up i j) (elt2 ?lo i j) = elt2 ?sz i j" if ij: "i < m" "j < n" for i j
    proof -
      have 1: "elt2 ?up i j = fadd (elt2 up i j) (elt2 delta i j)"
        using up'[unfolded tadd_def] fup' ij by (rule elt2_tmap2_fits)
      have 2: "elt2 ?lo i j = fadd (elt2 lo i j) (elt2 delta i j)"
        using lo'[unfolded tadd_def] flo' ij by (rule elt2_tmap2_fits)
      have 3: "elt2 ?sz i j = fsub (elt2 up i j) (elt2 lo i j)"
        using sz[unfolded tsub_def] fsz ij by (rule elt2_tmap2_fits)
      show ?thesis unfolding 1 2 3 using elt2_finite[OF fin fd ij] by (rule shift_value)
    qed
    have "map (\<lambda>i. map (\<lambda>j. fsub (elt2 ?up i j) (elt2 ?lo i j)) [0..<n]) [0..<m] = expand (m, n) ?sz"
      unfolding expand_def by (auto simp: el)
    with sz' have "size_b (Box ?lo ?up [m, n]) = Inr (expand (m, n) ?sz)" by simp
    moreover have "size_b b = Inr ?sz" by (simp add: bb sz)
    ultimately show ?thesis by blast
  qed
  have "shifted b delta = Box_init ?lo ?up" by (simp add: bb lo' up')
  with lo' up' sb size show ?thesis unfolding shmn by auto
qed

lemma shifted_Cuboid:
  assumes sh: "bshape (combined_shape c delta) (tshape h) = Some sh"
  shows "\<exists>c'. tadd c delta = Inr c'
      \<and> shifted (Cuboid c h s) delta = Inr (Cuboid c' h [fst sh])
      \<and> shifted (GridCell c h s r bd) delta = Inr (Cuboid c' h [fst sh])"
proof -
  obtain m n where shmn: "sh = (m, n)" by (cases sh)
  from sh obtain s1 where c1: "combined_shape c delta = Some s1"
    by (cases "combined_shape c delta") (auto simp: bshape_None_left)
  obtain a1 b1 where s1: "s1 = (a1, b1)" by (cases s1)
  have c': "tadd c delta = Inr (map (\<lambda>i. map (\<lambda>j. fadd (elt2 c i j) (elt2 delta i j)) [0..<b1]) [0..<a1])"
    (is "_ = Inr ?c") unfolding tadd_def using c1[unfolded s1] by (rule tmap2_Inr)
  have sc: "tshape ?c = Some s1" using tmap2_shape[OF c'[unfolded tadd_def]] c1 by simp
  have c3: "combined_shape ?c h = Some (m, n)"
    using sh by (simp add: combined_shape_def[of ?c h] sc c1 shmn)
  have "shifted (Cuboid c h s) delta = Inr (Cuboid ?c h [m])"
    "shifted (GridCell c h s r bd) delta = Inr (Cuboid ?c h [m])"
    by (simp_all add: c' Cuboid_init_def c3)
  with c' show ?thesis unfolding shmn by auto
qed

text \<open>
  Claim C8, as the code has it. For every \<^verbatim>\<open>Box\<close> \<open>b\<close> and every \<open>delta\<close> that
  broadcasts with its corners, \<^verbatim>\<open>b.shifted(delta)\<close> is
  \<^verbatim>\<open>Box(b.lower + delta, b.upper + delta)\<close>, and when \<open>delta\<close> is finite its size is the
  size of \<open>b\<close> (broadcast to the shape of the result). For every \<^verbatim>\<open>Cuboid\<close> (and
  \<^verbatim>\<open>GridCell\<close>) the result is the \<^verbatim>\<open>Cuboid\<close> with the center \<open>center + delta\<close> and
  the same half size.
\<close>

theorem shifted_translation:
  "(Box_init lo up = Inr b
      \<and> bshape (combined_shape lo delta) (combined_shape up delta) = Some sh \<longrightarrow>
    (\<exists>lo' up'. tadd lo delta = Inr lo' \<and> tadd up delta = Inr up'
       \<and> shifted b delta = Box_init lo' up'
       \<and> shifted b delta = Inr (Box lo' up' [fst sh, snd sh])
       \<and> (tfinite delta \<longrightarrow>
            (\<exists>sz. size_b b = Inr sz
               \<and> size_b (Box lo' up' [fst sh, snd sh]) = Inr (expand sh sz)))))
   \<and> (bshape (combined_shape c delta) (tshape h) = Some sh' \<longrightarrow>
    (\<exists>c'. tadd c delta = Inr c'
       \<and> shifted (Cuboid c h s) delta = Inr (Cuboid c' h [fst sh'])
       \<and> shifted (GridCell c h s r bd) delta = Inr (Cuboid c' h [fst sh'])
       \<and> center (Cuboid c' h [fst sh']) = Inr c'
       \<and> half_size (Cuboid c' h [fst sh']) = Inr h))"
proof (intro conjI impI)
  assume "Box_init lo up = Inr b
      \<and> bshape (combined_shape lo delta) (combined_shape up delta) = Some sh"
  then have "Box_init lo up = Inr b"
    "bshape (combined_shape lo delta) (combined_shape up delta) = Some sh" by simp_all
  then show "\<exists>lo' up'. tadd lo delta = Inr lo' \<and> tadd up delta = Inr up'
       \<and> shifted b delta = Box_init lo' up'
       \<and> shifted b delta = Inr (Box lo' up' [fst sh, snd sh])
       \<and> (tfinite delta \<longrightarrow>
            (\<exists>sz. size_b b = Inr sz
               \<and> size_b (Box lo' up' [fst sh, snd sh]) = Inr (expand sh sz)))"
    by (rule shifted_Box)
next
  assume "bshape (combined_shape c delta) (tshape h) = Some sh'"
  from shifted_Cuboid[OF this, of s r bd]
  show "\<exists>c'. tadd c delta = Inr c'
       \<and> shifted (Cuboid c h s) delta = Inr (Cuboid c' h [fst sh'])
       \<and> shifted (GridCell c h s r bd) delta = Inr (Cuboid c' h [fst sh'])
       \<and> center (Cuboid c' h [fst sh']) = Inr c'
       \<and> half_size (Cuboid c' h [fst sh']) = Inr h"
    by auto
qed

theorem shifted_translation_witness:
  "shifted (Box [[Fin 0, Fin 0]] [[Fin 10, Fin 20]] [1, 2]) [[Fin 1, Fin 2]]
     = Inr (Box [[Fin 1, Fin 2]] [[Fin 11, Fin 22]] [1, 2])
   \<and> size_b (Box [[Fin 0, Fin 0]] [[Fin 10, Fin 20]] [1, 2]) = Inr [[Fin 10, Fin 20]]
   \<and> size_b (Box [[Fin 1, Fin 2]] [[Fin 11, Fin 22]] [1, 2]) = Inr [[Fin 10, Fin 20]]
   \<and> shifted (Cuboid [[Fin 5, Fin 10]] [[Fin 5, Fin 10]] [1]) [[Fin 1, Fin 2]]
     = Inr (Cuboid [[Fin 6, Fin 12]] [[Fin 5, Fin 10]] [1])"
proof -
  let ?lo = "[[Fin 0, Fin 0]]" and ?up = "[[Fin 10, Fin 20]]" and ?d = "[[Fin 1, Fin 2]]"
  let ?b = "Box ?lo ?up [1, 2]"
  let ?c = "[[Fin 5, Fin 10]]"
  note t = shifted_translation[where lo = ?lo and up = ?up and b = ?b and delta = ?d
      and sh = "(1, 2)" and c = ?c and h = ?c and sh' = "(1, 2)" and s = "[1]"]
  have h: "Box_init ?lo ?up = Inr ?b"
    "bshape (combined_shape ?lo ?d) (combined_shape ?up ?d) = Some (1, 2)"
    "bshape (combined_shape ?c ?d) (tshape ?c) = Some (1, 2)"
    "tfinite ?d" by code_simp+
  have e: "tadd ?lo ?d = Inr [[Fin 1, Fin 2]]" "tadd ?up ?d = Inr [[Fin 11, Fin 22]]"
    "tadd ?c ?d = Inr [[Fin 6, Fin 12]]" "expand (1, 2) ?up = ?up"
    "size_b ?b = Inr ?up" by code_simp+
  from t h e show ?thesis by auto
qed

text \<open>
  The extent is not preserved by an infinite \<open>delta\<close>: the unit box shifted by
  \<open>+inf\<close> has both corners at \<open>+inf\<close> and the size NaN.
\<close>

theorem shifted_translation_counterexample:
  "Box_init [[Fin 0]] [[Fin 1]] = Inr (Box [[Fin 0]] [[Fin 1]] [1, 1])
   \<and> size_b (Box [[Fin 0]] [[Fin 1]] [1, 1]) = Inr [[Fin 1]]
   \<and> shifted (Box [[Fin 0]] [[Fin 1]] [1, 1]) [[PInf]] = Inr (Box [[PInf]] [[PInf]] [1, 1])
   \<and> size_b (Box [[PInf]] [[PInf]] [1, 1]) = Inr [[NaN]]"
  by code_simp

section \<open>get_lower and get_upper\<close>

lemma get_cases:
  assumes "tshape v = Some (m, n)"
  shows "get v axis =
     (if n = 1 then Inr (map (\<lambda>r. r ! 0) v)
      else if 0 \<le> axis \<and> axis < int n then Inr (map (\<lambda>r. r ! nat axis) v)
      else if - int n \<le> axis \<and> axis < 0 then Inr (map (\<lambda>r. r ! nat (int n + axis)) v)
      else Inl IndexError)"
  using assms by (simp add: get_def py_index_def)

text \<open>
  Claim C9. For a box whose lower (upper) corner has a vector dimension of size 1,
  \<^verbatim>\<open>get_lower(axis)\<close> (\<^verbatim>\<open>get_upper(axis)\<close>) returns the single component for every
  axis index, with no out-of-range error. For a larger vector dimension it returns the
  component at the requested index; as Python indexing does, a negative index counts
  from the end and an index outside the dimension raises \<^verbatim>\<open>IndexError\<close>.
\<close>

theorem get_component:
  assumes lo: "lower b = Inr lo" and up: "upper b = Inr up"
    and slo: "tshape lo = Some (m, n)" and sup: "tshape up = Some (m', n')"
  shows "(n = 1 \<longrightarrow> get_lower b axis = Inr (map (\<lambda>r. r ! 0) lo))
       \<and> (n' = 1 \<longrightarrow> get_upper b axis = Inr (map (\<lambda>r. r ! 0) up))
       \<and> (1 < n \<and> 0 \<le> axis \<and> axis < int n \<longrightarrow>
            get_lower b axis = Inr (map (\<lambda>r. r ! nat axis) lo))
       \<and> (1 < n' \<and> 0 \<le> axis \<and> axis < int n' \<longrightarrow>
            get_upper b axis = Inr (map (\<lambda>r. r ! nat axis) up))
       \<and> (1 < n \<and> - int n \<le> axis \<and> axis < 0 \<longrightarrow>
            get_lower b axis = Inr (map (\<lambda>r. r ! nat (int n + axis)) lo))
       \<and> (1 < n' \<and> - int n' \<le> axis \<and> axis < 0 \<longrightarrow>
            get_upper b axis = Inr (map (\<lambda>r. r ! nat (int n' + axis)) up))
       \<and> (n \<noteq> 1 \<and> (axis < - int n \<or> int n \<le> axis) \<longrightarrow> get_lower b axis = Inl IndexError)
       \<and> (n' \<noteq> 1 \<and> (axis < - int n' \<or> int n' \<le> axis) \<longrightarrow> get_upper b axis = Inl IndexError)"
  by (simp add: get_lower_def get_upper_def lo up get_cases[OF slo] get_cases[OF sup])

theorem get_component_witness:
  "get_lower (Cuboid [[Fin 5, Fin 10], [Fin 7, Fin 8]] [[Fin 1]] [2]) 0 = Inr [Fin 4, Fin 6]
   \<and> get_lower (Cuboid [[Fin 5, Fin 10], [Fin 7, Fin 8]] [[Fin 1]] [2]) 1 = Inr [Fin 9, Fin 7]
   \<and> get_upper (Cuboid [[Fin 5, Fin 10], [Fin 7, Fin 8]] [[Fin 1]] [2]) 1 = Inr [Fin 11, Fin 9]
   \<and> get_lower (Cuboid [[Fin 5, Fin 10], [Fin 7, Fin 8]] [[Fin 1]] [2]) 2 = Inl IndexError
   \<and> get_lower (Box [[Fin 3]] [[Fin 10, Fin 20]] [1, 2]) 0 = Inr [Fin 3]
   \<and> get_lower (Box [[Fin 3]] [[Fin 10, Fin 20]] [1, 2]) 1 = Inr [Fin 3]
   \<and> get_lower (Box [[Fin 3]] [[Fin 10, Fin 20]] [1, 2]) 7 = Inr [Fin 3]
   \<and> get_upper (Box [[Fin 3]] [[Fin 10, Fin 20]] [1, 2]) 1 = Inr [Fin 20]"
proof -
  let ?c = "Cuboid [[Fin 5, Fin 10], [Fin 7, Fin 8]] [[Fin 1]] [2]"
  let ?b = "Box [[Fin 3]] [[Fin 10, Fin 20]] [1, 2]"
  have c: "lower ?c = Inr [[Fin 4, Fin 9], [Fin 6, Fin 7]]"
    "upper ?c = Inr [[Fin 6, Fin 11], [Fin 8, Fin 9]]"
    "tshape [[Fin 4, Fin 9], [Fin 6, Fin 7]] = Some (2, 2)"
    "tshape [[Fin 6, Fin 11], [Fin 8, Fin 9]] = Some (2, 2)" by code_simp+
  have b: "lower ?b = Inr [[Fin 3]]" "upper ?b = Inr [[Fin 10, Fin 20]]"
    "tshape [[Fin 3]] = Some (1, 1)" "tshape [[Fin 10, Fin 20]] = Some (1, 2)" by code_simp+
  from get_component[OF c, of 0] get_component[OF c, of 1] get_component[OF c, of 2]
    get_component[OF b, of 0] get_component[OF b, of 1] get_component[OF b, of 7]
  show ?thesis by simp
qed

section \<open>GridCell.unstack\<close>

text \<open>
  Claim C10. \<^verbatim>\<open>GridCell.unstack\<close> returns \<^verbatim>\<open>None\<close> for every grid cell and every
  dimension argument: it neither raises \<^verbatim>\<open>NotImplementedError\<close>, as \<^verbatim>\<open>Box.unstack\<close>
  and the inherited method of \<^verbatim>\<open>Cuboid\<close> do, nor returns geometries.
\<close>

theorem GridCell_unstack_None:
  "unstack (GridCell c h s r b) dimension = Inr PyNone
   \<and> unstack (Box lo up s1) dimension = Inl NotImplementedError
   \<and> unstack (Cuboid c1 h1 s2) dimension = Inl NotImplementedError"
  by simp

end
